theory Spec2Isabelle
  imports Main "HOL-Library.Multiset"
begin

section \<open>Python values, strings and exceptions\<close>

text \<open>
  The values that travel through the agent are JSON values (the intent object is the result
  of \<^verbatim>\<open>json.loads\<close>) and keyword arguments. Numbers are integers here; a JSON
  number with a fraction is outside the model. An exception is a value of \<open>py_error\<close>.
\<close>

datatype pyval =
    PNone
  | PBool bool
  | PInt int
  | PStr string
  | PList "pyval list"
  | PDict "(string \<times> pyval) list"

datatype py_error = AttributeError | TypeError | KeyError | ValidationError | StopIteration

type_synonym py_dict = "string \<rightharpoonup> pyval"

text \<open>\<^verbatim>\<open>d.get(k)\<close>: the value, or \<^verbatim>\<open>None\<close> when the key is missing.\<close>

definition dict_get :: "py_dict \<Rightarrow> string \<Rightarrow> pyval" where
  "dict_get d k = (case d k of None \<Rightarrow> PNone | Some v \<Rightarrow> v)"

text \<open>\<^verbatim>\<open>d.get(k, default)\<close>.\<close>

definition dict_get_default :: "py_dict \<Rightarrow> string \<Rightarrow> pyval \<Rightarrow> pyval" where
  "dict_get_default d k dflt = (case d k of None \<Rightarrow> dflt | Some v \<Rightarrow> v)"

text \<open>Python truthiness, as tested by \<^verbatim>\<open>if x:\<close>.\<close>

fun truthy :: "pyval \<Rightarrow> bool" where
  "truthy PNone = False"
| "truthy (PBool b) = b"
| "truthy (PInt n) = (n \<noteq> 0)"
| "truthy (PStr s) = (s \<noteq> [])"
| "truthy (PList xs) = (xs \<noteq> [])"
| "truthy (PDict kvs) = (kvs \<noteq> [])"

text \<open>
  \<^verbatim>\<open>str.upper\<close> and \<^verbatim>\<open>str.lower\<close> on ASCII text: a \<open>char\<close> is a byte, and
  bytes outside \<open>a..z\<close> (\<open>A..Z\<close>) are left as they are.
\<close>

definition upper_char :: "char \<Rightarrow> char" where
  "upper_char c =
     (let n = (of_char c :: nat) in if 97 \<le> n \<and> n \<le> 122 then char_of (n - 32) else c)"

definition lower_char :: "char \<Rightarrow> char" where
  "lower_char c =
     (let n = (of_char c :: nat) in if 65 \<le> n \<and> n \<le> 90 then char_of (n + 32) else c)"

definition upper :: "string \<Rightarrow> string" where
  "upper s = map upper_char s"

definition lower :: "string \<Rightarrow> string" where
  "lower s = map lower_char s"

text \<open>\<^verbatim>\<open>sub in s\<close> on strings: \<open>sub\<close> occurs at some position of \<open>s\<close>.\<close>

fun str_contains :: "string \<Rightarrow> string \<Rightarrow> bool" where
  "str_contains sub [] = (sub = [])"
| "str_contains sub (c # cs) = (take (length sub) (c # cs) = sub \<or> str_contains sub cs)"

section \<open>Feed records, data frames and the object store\<close>

text \<open>
  One row of \<^verbatim>\<open>Table_feeds_v2.csv\<close>, with the columns the code reads by name. The
  analytics model tag may be missing in a row.
\<close>

record feed =
  FEED_ID :: string
  THEATER :: string
  CODEC :: string
  RES_W :: int
  RES_H :: int
  LAT_MS :: int
  MODL_TAG :: "string option"
  ENCR :: bool
  CIV_OK :: bool

text \<open>
  A row of a data frame is a feed together with its \<^verbatim>\<open>quality_score\<close> cell, which is
  \<open>None\<close> in a frame that has no such column. A frame keeps its column names and its rows
  in order.
\<close>

type_synonym row = "feed \<times> int option"

record frame =
  columns :: "string list"
  rows :: "row list"

text \<open>
  Data frames are objects: two variables may name the same frame, and item assignment
  changes the frame in place. The store holds every frame by address; a new frame gets the
  next free address. \<open>camera_feeds\<close> is the attribute of the loader that names the
  catalog (\<open>None\<close> before loading), and \<open>table_feeds_v2\<close> is the content of the CSV file.
\<close>

type_synonym addr = nat

record data_loader =
  heap :: "frame list"
  camera_feeds :: "addr option"
  table_feeds_v2 :: frame

definition alloc :: "frame \<Rightarrow> data_loader \<Rightarrow> addr \<times> data_loader" where
  "alloc f s = (length (heap s), s\<lparr>heap := heap s @ [f]\<rparr>)"

text \<open>
  Reading through a reference. References are only made by \<open>alloc\<close>, so they never
  dangle in a run of the program; the empty frame stands for the impossible case.
\<close>

definition deref :: "data_loader \<Rightarrow> addr \<Rightarrow> frame" where
  "deref s a = (if a < length (heap s) then heap s ! a else \<lparr>columns = [], rows = []\<rparr>)"

text \<open>The catalog as an observer sees it: the frame the loader's attribute names.\<close>

definition catalog :: "data_loader \<Rightarrow> frame option" where
  "catalog s =
     (case camera_feeds s of
        None \<Rightarrow> None
      | Some a \<Rightarrow> if a < length (heap s) then Some (heap s ! a) else None)"

subsection \<open>The pandas operations the code uses\<close>

text \<open>\<^verbatim>\<open>feeds[mask]\<close> with a row-wise condition: a new frame with the rows that satisfy it.\<close>

definition getitem_mask :: "(feed \<Rightarrow> bool) \<Rightarrow> addr \<Rightarrow> data_loader \<Rightarrow> addr \<times> data_loader" where
  "getitem_mask p a s =
     (let f = deref s a in alloc (f\<lparr>rows := filter (\<lambda>r. p (fst r)) (rows f)\<rparr>) s)"

text \<open>\<^verbatim>\<open>feeds.copy()\<close>: a new frame with the same content.\<close>

definition copy_frame :: "addr \<Rightarrow> data_loader \<Rightarrow> addr \<times> data_loader" where
  "copy_frame a s = alloc (deref s a) s"

text \<open>
  \<^verbatim>\<open>feeds['quality_score'] = col\<close>: the frame at the address is changed in place; the column
  is appended to the column names when it is new. The column has one cell per row.
\<close>

definition setitem_quality_score :: "addr \<Rightarrow> int list \<Rightarrow> data_loader \<Rightarrow> data_loader" where
  "setitem_quality_score a col s =
     (let f = deref s a;
          f' = \<lparr>columns = (if ''quality_score'' \<in> set (columns f) then columns f
                            else columns f @ [''quality_score'']),
                rows = map (\<lambda>(r, q). (fst r, Some q)) (zip (rows f) col)\<rparr>
      in s\<lparr>heap := (heap s)[a := f']\<rparr>)"

text \<open>
  \<^verbatim>\<open>feeds.sort_values('quality_score', ascending=False)\<close>. pandas computes an indexer
  (the positions of the rows in their new order) from the key column and takes the rows in
  that order into a new frame. The sorting routine is the library's (the default
  \<^verbatim>\<open>kind='quicksort'\<close>), not the repository's, so it is the parameter \<open>argsort\<close>. A
  frame without the column raises \<^verbatim>\<open>KeyError\<close>.
\<close>

definition sort_values_quality_score ::
  "(int list \<Rightarrow> nat list) \<Rightarrow> addr \<Rightarrow> data_loader \<Rightarrow> (py_error + addr) \<times> data_loader" where
  "sort_values_quality_score argsort a s =
     (let f = deref s a in
      if ''quality_score'' \<notin> set (columns f) then (Inl KeyError, s)
      else case those (map snd (rows f)) of
        None \<Rightarrow> (Inl KeyError, s)
      | Some keys \<Rightarrow>
          (let (b, s') = alloc (f\<lparr>rows := map (\<lambda>i. rows f ! i) (argsort keys)\<rparr>) s
           in (Inr b, s')))"

text \<open>\<^verbatim>\<open>feeds.to_dict('records')\<close>, \<^verbatim>\<open>len(feeds)\<close> and \<^verbatim>\<open>list(feeds.columns)\<close>.\<close>

definition to_dict_records :: "data_loader \<Rightarrow> addr \<Rightarrow> row list" where
  "to_dict_records s a = rows (deref s a)"

definition len :: "data_loader \<Rightarrow> addr \<Rightarrow> nat" where
  "len s a = length (rows (deref s a))"

definition columns_list :: "data_loader \<Rightarrow> addr \<Rightarrow> string list" where
  "columns_list s a = columns (deref s a)"

section \<open>DataLoader\<close>

definition load_all_data :: "data_loader \<Rightarrow> addr \<times> data_loader" where
  "load_all_data s =
     (let (a, s') = alloc (table_feeds_v2 s) s in (a, s'\<lparr>camera_feeds := Some a\<rparr>))"

definition get_camera_feeds :: "data_loader \<Rightarrow> addr \<times> data_loader" where
  "get_camera_feeds s =
     (case camera_feeds s of None \<Rightarrow> load_all_data s | Some a \<Rightarrow> (a, s))"

definition get_feeds_by_theater :: "string \<Rightarrow> data_loader \<Rightarrow> addr \<times> data_loader" where
  "get_feeds_by_theater theater s =
     (let (feeds, s1) = get_camera_feeds s
      in getitem_mask (\<lambda>r. THEATER r = upper theater) feeds s1)"

definition get_feeds_by_codec :: "string \<Rightarrow> data_loader \<Rightarrow> addr \<times> data_loader" where
  "get_feeds_by_codec codec s =
     (let (feeds, s1) = get_camera_feeds s
      in getitem_mask (\<lambda>r. CODEC r = upper codec) feeds s1)"

text \<open>
  \<^verbatim>\<open>if bound: feeds = feeds[cond]\<close> for an optional integer bound: the test is Python
  truthiness, so the filter is applied when the bound is given and is not \<open>0\<close>.
\<close>

definition if_bound ::
  "int option \<Rightarrow> (int \<Rightarrow> feed \<Rightarrow> bool) \<Rightarrow> addr \<times> data_loader \<Rightarrow> addr \<times> data_loader" where
  "if_bound bound cond fs =
     (case bound of
        None \<Rightarrow> fs
      | Some n \<Rightarrow> if n \<noteq> 0 then getitem_mask (cond n) (fst fs) (snd fs) else fs)"

definition get_feeds_by_resolution ::
  "int option \<Rightarrow> int option \<Rightarrow> int option \<Rightarrow> int option \<Rightarrow> data_loader \<Rightarrow> addr \<times> data_loader" where
  "get_feeds_by_resolution min_width min_height max_width max_height s =
     (let fs = get_camera_feeds s;
          fs = if_bound min_width (\<lambda>n r. n \<le> RES_W r) fs;
          fs = if_bound min_height (\<lambda>n r. n \<le> RES_H r) fs;
          fs = if_bound max_width (\<lambda>n r. RES_W r \<le> n) fs;
          fs = if_bound max_height (\<lambda>n r. RES_H r \<le> n) fs
      in fs)"

definition get_feeds_by_latency ::
  "int option \<Rightarrow> int option \<Rightarrow> data_loader \<Rightarrow> addr \<times> data_loader" where
  "get_feeds_by_latency max_latency min_latency s =
     (let fs = get_camera_feeds s;
          fs = if_bound max_latency (\<lambda>n r. LAT_MS r \<le> n) fs;
          fs = if_bound min_latency (\<lambda>n r. n \<le> LAT_MS r) fs
      in fs)"

text \<open>
  The three criteria are boolean columns of the catalog; each is read as \<open>0\<close> or \<open>1\<close>,
  multiplied by its weight, and the columns are added row by row.
\<close>

definition quality_score_column :: "feed list \<Rightarrow> int list" where
  "quality_score_column rs =
     (let high_res = map (\<lambda>r. 1920 \<le> RES_W r \<and> 1080 \<le> RES_H r) rs;
          modern_codec = map (\<lambda>r. CODEC r \<in> set [''H265'', ''AV1'', ''VP9'']) rs;
          low_latency = map (\<lambda>r. LAT_MS r \<le> 500) rs
      in map (\<lambda>(h, m, l). (of_bool h * 3 + of_bool m * 2 + of_bool l * 1 :: int))
             (zip high_res (zip modern_codec low_latency)))"

text \<open>The catalog is copied, and the score becomes the \<^verbatim>\<open>quality_score\<close> column of the copy.\<close>

definition with_quality_score :: "data_loader \<Rightarrow> addr \<times> data_loader" where
  "with_quality_score s =
     (let (feeds, s1) = get_camera_feeds s;
          score = quality_score_column (map fst (rows (deref s1 feeds)));
          (feeds', s2) = copy_frame feeds s1
      in (feeds', setitem_quality_score feeds' score s2))"

definition get_high_quality_feeds ::
  "(int list \<Rightarrow> nat list) \<Rightarrow> data_loader \<Rightarrow> (py_error + addr) \<times> data_loader" where
  "get_high_quality_feeds argsort s =
     (let (feeds, s1) = with_quality_score s
      in sort_values_quality_score argsort feeds s1)"




section \<open>MCPTools\<close>

text \<open>
  The constructor makes a loader and loads the data at once, so the catalog is loaded
  whenever a tool runs.
\<close>

definition MCPTools_init :: "frame \<Rightarrow> data_loader" where
  "MCPTools_init table =
     snd (load_all_data \<lparr>heap = [], camera_feeds = None, table_feeds_v2 = table\<rparr>)"

text \<open>
  The dictionary most tools return: the rows as records, their number (the key is
  \<^verbatim>\<open>total_count\<close> for \<^verbatim>\<open>get_all_camera_feeds\<close> and \<^verbatim>\<open>count\<close> otherwise), the column
  names, and the entries that echo the arguments.
\<close>

record tool_result =
  feeds :: "row list"
  result_count :: nat
  result_columns :: "string list"
  echo :: "(string \<times> pyval) list"

definition result_of :: "data_loader \<Rightarrow> addr \<Rightarrow> (string \<times> pyval) list \<Rightarrow> tool_result" where
  "result_of s a entries =
     \<lparr>feeds = to_dict_records s a, result_count = len s a, result_columns = columns_list s a,
      echo = entries\<rparr>"

definition get_all_camera_feeds :: "data_loader \<Rightarrow> tool_result \<times> data_loader" where
  "get_all_camera_feeds s =
     (let (df, s1) = get_camera_feeds s in (result_of s1 df [], s1))"

definition filter_by_theater :: "string \<Rightarrow> data_loader \<Rightarrow> tool_result \<times> data_loader" where
  "filter_by_theater theater s =
     (let (df, s1) = get_feeds_by_theater theater s
      in (result_of s1 df [(''theater'', PStr theater)], s1))"

definition filter_by_codec :: "string \<Rightarrow> data_loader \<Rightarrow> tool_result \<times> data_loader" where
  "filter_by_codec codec s =
     (let (df, s1) = get_feeds_by_codec codec s
      in (result_of s1 df [(''codec'', PStr codec)], s1))"

definition optional_int :: "int option \<Rightarrow> pyval" where
  "optional_int x = (case x of None \<Rightarrow> PNone | Some n \<Rightarrow> PInt n)"

definition filter_by_resolution ::
  "int option \<Rightarrow> int option \<Rightarrow> int option \<Rightarrow> int option \<Rightarrow> data_loader
     \<Rightarrow> tool_result \<times> data_loader" where
  "filter_by_resolution min_width min_height max_width max_height s =
     (let (df, s1) = get_feeds_by_resolution min_width min_height max_width max_height s
      in (result_of s1 df
            [(''resolution_filter'',
              PDict [(''min_width'', optional_int min_width),
                     (''min_height'', optional_int min_height),
                     (''max_width'', optional_int max_width),
                     (''max_height'', optional_int max_height)])], s1))"

definition filter_by_latency ::
  "int option \<Rightarrow> int option \<Rightarrow> data_loader \<Rightarrow> tool_result \<times> data_loader" where
  "filter_by_latency max_latency min_latency s =
     (let (df, s1) = get_feeds_by_latency max_latency min_latency s
      in (result_of s1 df
            [(''latency_filter'',
              PDict [(''max_latency'', optional_int max_latency),
                     (''min_latency'', optional_int min_latency)])], s1))"

text \<open>
  \<^verbatim>\<open>MCPTools.get_high_quality_feeds\<close>; the name without \<open>get\<close> tells it from the
  method of the loader that it calls.
\<close>

definition high_quality_feeds ::
  "(int list \<Rightarrow> nat list) \<Rightarrow> data_loader \<Rightarrow> (py_error + tool_result) \<times> data_loader" where
  "high_quality_feeds argsort s =
     (case get_high_quality_feeds argsort s of
        (Inl e, s1) \<Rightarrow> (Inl e, s1)
      | (Inr df, s1) \<Rightarrow>
          (Inr (result_of s1 df
                 [(''quality_metrics'',
                   PDict [(''resolution_weight'', PInt 3), (''codec_weight'', PInt 2),
                          (''latency_weight'', PInt 1)])]), s1))"




subsection \<open>Distribution analysis\<close>








subsection \<open>Lookup by feed id\<close>

text \<open>
  \<^verbatim>\<open>get_feed_by_id\<close> returns a dictionary, kept here as its list of keys and values:
  \<^verbatim>\<open>{"error": ..., "available_feeds": ...}\<close> when no row has the id, and
  \<^verbatim>\<open>{"feed": ..., "found": True}\<close> otherwise. A caller reads an entry with \<open>map_of\<close>,
  which is \<^verbatim>\<open>result.get(key)\<close>: \<open>None\<close> when the dictionary has no such key.
\<close>

datatype lookup_value =
    Text string
  | Feed_ids "string list"
  | Feed_row row
  | Truth bool

type_synonym lookup_dict = "(string \<times> lookup_value) list"

definition get_feed_by_id :: "string \<Rightarrow> data_loader \<Rightarrow> lookup_dict \<times> data_loader" where
  "get_feed_by_id feed_id s =
     (let (df, s1) = get_camera_feeds s;
          (feed, s2) = getitem_mask (\<lambda>r. FEED_ID r = feed_id) df s1
      in case rows (deref s2 feed) of
           [] \<Rightarrow> ([(''error'',
                     Text (''Feed ID '' @ [CHR 0x27] @ feed_id @ [CHR 0x27] @ '' not found'')),
                    (''available_feeds'',
                     Feed_ids (take 10 (map (FEED_ID \<circ> fst) (rows (deref s2 df)))))], s2)
         | r # _ \<Rightarrow> ([(''feed'', Feed_row r), (''found'', Truth True)], s2))"

subsection \<open>Search with several filters\<close>

text \<open>
  The keyword arguments are a dictionary from names to values. A filter value is a string,
  an integer or a boolean, the kinds the seven filters are documented to take; any of them
  may arrive under any name.
\<close>

datatype fval = FStr string | FInt int | FBool bool

type_synonym filters = "string \<rightharpoonup> fval"

text \<open>
  The conditions, by the kind of the argument. \<^verbatim>\<open>v.upper()\<close> exists for strings only.
  An order comparison of an integer column takes an integer, takes a boolean as \<open>0\<close> or
  \<open>1\<close>, and raises \<^verbatim>\<open>TypeError\<close> for a string. Equality with a boolean column never
  raises: an integer is compared with the column read as \<open>0\<close> or \<open>1\<close>, a string equals no
  cell.
\<close>

fun eq_upper :: "(feed \<Rightarrow> string) \<Rightarrow> fval \<Rightarrow> py_error + (feed \<Rightarrow> bool)" where
  "eq_upper col (FStr v) = Inr (\<lambda>r. col r = upper v)"
| "eq_upper col (FInt n) = Inl AttributeError"
| "eq_upper col (FBool b) = Inl AttributeError"

fun ge_value :: "(feed \<Rightarrow> int) \<Rightarrow> fval \<Rightarrow> py_error + (feed \<Rightarrow> bool)" where
  "ge_value col (FInt n) = Inr (\<lambda>r. n \<le> col r)"
| "ge_value col (FBool b) = Inr (\<lambda>r. of_bool b \<le> col r)"
| "ge_value col (FStr v) = Inl TypeError"

fun le_value :: "(feed \<Rightarrow> int) \<Rightarrow> fval \<Rightarrow> py_error + (feed \<Rightarrow> bool)" where
  "le_value col (FInt n) = Inr (\<lambda>r. col r \<le> n)"
| "le_value col (FBool b) = Inr (\<lambda>r. col r \<le> of_bool b)"
| "le_value col (FStr v) = Inl TypeError"

fun eq_bool :: "(feed \<Rightarrow> bool) \<Rightarrow> fval \<Rightarrow> py_error + (feed \<Rightarrow> bool)" where
  "eq_bool col (FBool b) = Inr (\<lambda>r. col r = b)"
| "eq_bool col (FInt n) = Inr (\<lambda>r. (of_bool (col r) :: int) = n)"
| "eq_bool col (FStr v) = Inr (\<lambda>r. False)"

text \<open>
  One \<^verbatim>\<open>if name in filters:\<close> block: the current frame is replaced by its filtered
  copy and the value is recorded in \<^verbatim>\<open>applied_filters\<close>. An exception ends the search.
\<close>

type_synonym search_state = "(py_error + addr \<times> (string \<times> fval) list) \<times> data_loader"

definition apply_filter ::
  "filters \<Rightarrow> string \<Rightarrow> (fval \<Rightarrow> py_error + (feed \<Rightarrow> bool)) \<Rightarrow> search_state \<Rightarrow> search_state" where
  "apply_filter fs name cond st =
     (case st of
        (Inl e, s) \<Rightarrow> (Inl e, s)
      | (Inr (df, filters_so_far), s) \<Rightarrow>
          (case fs name of
             None \<Rightarrow> (Inr (df, filters_so_far), s)
           | Some v \<Rightarrow>
               (case cond v of
                  Inl e \<Rightarrow> (Inl e, s)
                | Inr p \<Rightarrow>
                    (let (df', s') = getitem_mask p df s
                     in (Inr (df', filters_so_far @ [(name, v)]), s')))))"

record search_result =
  search_feeds_rows :: "row list"
  applied_filters :: "(string \<times> fval) list"
  search_count :: nat
  search_columns :: "string list"

definition search_feeds :: "filters \<Rightarrow> data_loader \<Rightarrow> (py_error + search_result) \<times> data_loader" where
  "search_feeds fs s =
     (let (df, s0) = get_camera_feeds s;
          st = (Inr (df, []), s0);
          st = apply_filter fs ''theater'' (eq_upper THEATER) st;
          st = apply_filter fs ''codec'' (eq_upper CODEC) st;
          st = apply_filter fs ''min_width'' (ge_value RES_W) st;
          st = apply_filter fs ''min_height'' (ge_value RES_H) st;
          st = apply_filter fs ''max_latency'' (le_value LAT_MS) st;
          st = apply_filter fs ''encrypted'' (eq_bool ENCR) st;
          st = apply_filter fs ''civilian_safe'' (eq_bool CIV_OK) st
      in case st of
           (Inl e, s1) \<Rightarrow> (Inl e, s1)
         | (Inr (df, applied), s1) \<Rightarrow>
             (Inr \<lparr>search_feeds_rows = to_dict_records s1 df, applied_filters = applied,
                   search_count = len s1 df, search_columns = columns_list s1 df\<rparr>, s1))"

section \<open>QueryAgent: executing the tools for an intent\<close>

text \<open>
  A planned tool call is the name of the tool and its arguments. The state of the graph
  carries the intent (a dictionary after \<^verbatim>\<open>_parse_query\<close>), the results and an error; the
  error text is modelled by the exception it is built from. The other entries of the state
  are not read or written here.
\<close>

type_synonym tool_call = "string \<times> (string \<times> pyval) list"

datatype data_results =
    Intent_error pyval
  | Exception_error py_error
  | Tool_results "string \<rightharpoonup> tool_result"

record query_state =
  intent :: py_dict
  data_results :: "data_results option"
  error :: "py_error option"

text \<open>
  \<^verbatim>\<open>intent.get("quality") == "high" or "best" in intent.get("quality", "").lower()\<close>: the
  default \<^verbatim>\<open>""\<close> is used only when the key is missing, and \<^verbatim>\<open>lower\<close> exists for
  strings only.
\<close>

definition quality_is_high :: "py_dict \<Rightarrow> py_error + bool" where
  "quality_is_high i =
     (if dict_get i ''quality'' = PStr ''high'' then Inr True
      else case dict_get_default i ''quality'' (PStr []) of
             PStr q \<Rightarrow> Inr (str_contains ''best'' (lower q))
           | _ \<Rightarrow> Inl AttributeError)"

text \<open>The choice of the tool calls, lines 199 to 208 of the method.\<close>

definition select_tool_calls :: "py_dict \<Rightarrow> py_error + tool_call list" where
  "select_tool_calls i =
     (if dict_get i ''intent'' \<in> set [PStr ''filter'', PStr ''search'', PStr ''analyze'']
      then
        (if truthy (dict_get i ''theater'')
           then Inr [(''filter_by_theater'', [(''theater'', dict_get i ''theater'')])]
         else if truthy (dict_get i ''codec'')
           then Inr [(''filter_by_codec'', [(''codec'', dict_get i ''codec'')])]
         else case quality_is_high i of
                Inl e \<Rightarrow> Inl e
              | Inr True \<Rightarrow> Inr [(''get_high_quality_feeds'', [])]
              | Inr False \<Rightarrow> Inr [(''get_all_camera_feeds'', [])])
      else Inr [])"

text \<open>
  Invoking a tool by name. The four tools that can be chosen above are modelled; the tool
  checks its arguments against its signature, so a theater or codec that is not a string is
  refused with an exception. The result goes through \<^verbatim>\<open>json.dumps\<close> and
  \<^verbatim>\<open>json.loads\<close> unchanged.
\<close>

definition invoke_tool ::
  "(int list \<Rightarrow> nat list) \<Rightarrow> tool_call \<Rightarrow> data_loader \<Rightarrow> (py_error + tool_result) \<times> data_loader" where
  "invoke_tool argsort c s =
     (if fst c = ''filter_by_theater'' then
        (case map_of (snd c) ''theater'' of
           Some (PStr t) \<Rightarrow> (let (r, s1) = filter_by_theater t s in (Inr r, s1))
         | _ \<Rightarrow> (Inl ValidationError, s))
      else if fst c = ''filter_by_codec'' then
        (case map_of (snd c) ''codec'' of
           Some (PStr t) \<Rightarrow> (let (r, s1) = filter_by_codec t s in (Inr r, s1))
         | _ \<Rightarrow> (Inl ValidationError, s))
      else if fst c = ''get_high_quality_feeds'' then high_quality_feeds argsort s
      else if fst c = ''get_all_camera_feeds'' then
        (let (r, s1) = get_all_camera_feeds s in (Inr r, s1))
      else (Inl StopIteration, s))"

text \<open>
  The loop over the planned calls. It returns the results, the calls that were invoked, in
  order, and the loader; an exception leaves the loop.
\<close>

fun run_tool_calls ::
  "(int list \<Rightarrow> nat list) \<Rightarrow> tool_call list \<Rightarrow> (string \<rightharpoonup> tool_result) \<Rightarrow> data_loader
     \<Rightarrow> (py_error + (string \<rightharpoonup> tool_result)) \<times> tool_call list \<times> data_loader" where
  "run_tool_calls argsort [] results s = (Inr results, [], s)"
| "run_tool_calls argsort (c # cs) results s =
     (case invoke_tool argsort c s of
        (Inl e, s1) \<Rightarrow> (Inl e, [c], s1)
      | (Inr r, s1) \<Rightarrow>
          (case run_tool_calls argsort cs (results(fst c \<mapsto> r)) s1 of
             (out, invoked, s2) \<Rightarrow> (out, c # invoked, s2)))"

definition execute_tools ::
  "(int list \<Rightarrow> nat list) \<Rightarrow> query_state \<Rightarrow> data_loader
     \<Rightarrow> query_state \<times> tool_call list \<times> data_loader" where
  "execute_tools argsort state s =
     (let i = intent state in
      if dict_get i ''intent'' = PStr ''error'' then
        (state\<lparr>data_results :=
                  Some (Intent_error (dict_get_default i ''error'' (PStr ''Unknown error'')))\<rparr>,
         [], s)
      else
        (case select_tool_calls i of
           Inl e \<Rightarrow> (state\<lparr>error := Some e, data_results := Some (Exception_error e)\<rparr>, [], s)
         | Inr tool_calls \<Rightarrow>
             (case run_tool_calls argsort tool_calls Map.empty s of
                (Inl e, invoked, s1) \<Rightarrow>
                  (state\<lparr>error := Some e, data_results := Some (Exception_error e)\<rparr>,
                   invoked, s1)
              | (Inr results, invoked, s1) \<Rightarrow>
                  (state\<lparr>data_results := Some (Tool_results results)\<rparr>, invoked, s1))))"

section \<open>What the properties are stated with\<close>

subsection \<open>Views of the store\<close>

text \<open>
  A method hands back a reference and the loader. \<open>view\<close> is the frame behind the
  reference, \<open>valid\<close> says the reference points into the store, and \<open>extends s s'\<close>
  says that \<open>s'\<close> has the attributes of \<open>s\<close> and the frames of \<open>s\<close>, unchanged and at
  their addresses, possibly followed by new ones.
\<close>

definition view :: "addr \<times> data_loader \<Rightarrow> frame" where
  "view fs = deref (snd fs) (fst fs)"

definition valid :: "addr \<times> data_loader \<Rightarrow> bool" where
  "valid fs \<longleftrightarrow> fst fs < length (heap (snd fs))"

definition extends :: "data_loader \<Rightarrow> data_loader \<Rightarrow> bool" where
  "extends s s' \<longleftrightarrow>
     camera_feeds s' = camera_feeds s \<and> table_feeds_v2 s' = table_feeds_v2 s \<and>
     length (heap s) \<le> length (heap s') \<and> take (length (heap s)) (heap s') = heap s"

subsection \<open>The operations of the filter engine\<close>








subsection \<open>The quality score as the specification words it\<close>

definition quality_points :: "feed \<Rightarrow> int" where
  "quality_points r =
     3 * of_bool (1920 \<le> RES_W r \<and> 1080 \<le> RES_H r) +
     2 * of_bool (CODEC r \<in> {''H265'', ''AV1'', ''VP9''}) +
     1 * of_bool (LAT_MS r \<le> 500)"

subsection \<open>Sorting routines\<close>

text \<open>
  What \<^verbatim>\<open>sort_values(..., ascending=False)\<close> promises of its indexer whatever the
  sorting kind: it is a rearrangement of the positions, and the keys read in its order
  descend. With the default kind the order among equal keys is not promised.
\<close>

definition argsort_descending :: "(int list \<Rightarrow> nat list) \<Rightarrow> bool" where
  "argsort_descending argsort \<longleftrightarrow>
     (\<forall>keys. mset (argsort keys) = mset [0..<length keys] \<and>
             sorted (rev (map ((!) keys) (argsort keys))))"

text \<open>A routine that keeps the promise and keeps equal keys in their order.\<close>

definition stable_argsort :: "int list \<Rightarrow> nat list" where
  "stable_argsort keys = sort_key (\<lambda>i. - (keys ! i)) [0..<length keys]"

text \<open>
  The routine behind the default kind. numpy's \<^verbatim>\<open>quicksort\<close>, in its vectorised form,
  sorts an array that fits one vector register (eight 64-bit keys) with a bitonic network
  of compare-exchange steps on pairs of key and position. A step puts the smaller key in the
  lower lane and exchanges the two pairs only when their keys are out of order; lanes beyond
  the array are padding and never exchange. Longer arrays are partitioned first and are not
  modelled.
\<close>

definition compare_exchange :: "nat \<times> nat \<Rightarrow> (int \<times> nat) list \<Rightarrow> (int \<times> nat) list" where
  "compare_exchange ij kp =
     (let i = fst ij; j = snd ij in
      if j < length kp \<and> fst (kp ! j) < fst (kp ! i) then kp[i := kp ! j, j := kp ! i]
      else kp)"

definition bitonic_network :: "(nat \<times> nat) list" where
  "bitonic_network =
     [(0, 1), (2, 3), (4, 5), (6, 7),
      (0, 3), (1, 2), (4, 7), (5, 6),
      (0, 1), (2, 3), (4, 5), (6, 7),
      (0, 7), (1, 6), (2, 5), (3, 4),
      (0, 2), (1, 3), (4, 6), (5, 7),
      (0, 1), (2, 3), (4, 5), (6, 7)]"

definition simd_argsort :: "int list \<Rightarrow> nat list" where
  "simd_argsort keys =
     map snd (fold compare_exchange bitonic_network (zip keys [0..<length keys]))"

text \<open>
  pandas' \<^verbatim>\<open>nargsort\<close> for \<^verbatim>\<open>ascending=False\<close>: the keys and their positions are
  reversed, the reversed keys are sorted ascending, and the resulting indexer is reversed.
\<close>

definition nargsort_descending :: "int list \<Rightarrow> nat list" where
  "nargsort_descending keys =
     rev (map (\<lambda>i. rev [0..<length keys] ! i) (simd_argsort (rev keys)))"

text \<open>
  Stability of the ranking: for every score, the records of the result with that score
  are the records of the catalog with that score, in the catalog's order.
\<close>

definition ties_in_catalog_order :: "row list \<Rightarrow> row list \<Rightarrow> bool" where
  "ties_in_catalog_order cat_rows result \<longleftrightarrow>
     (\<forall>k \<in> {0..6}. map fst (filter (\<lambda>r. snd r = Some k) result) =
                    filter (\<lambda>r. quality_points r = k) (map fst cat_rows))"

subsection \<open>The filters of the search as the specification words them\<close>

definition supported_filters :: "string list" where
  "supported_filters =
     [''theater'', ''codec'', ''min_width'', ''min_height'', ''max_latency'', ''encrypted'',
      ''civilian_safe'']"

text \<open>The documented kind of value of each filter, and what it asks of a record.\<close>

fun has_documented_type :: "string \<Rightarrow> fval \<Rightarrow> bool" where
  "has_documented_type name (FStr v) = (name \<in> set [''theater'', ''codec''])"
| "has_documented_type name (FInt n) = (name \<in> set [''min_width'', ''min_height'', ''max_latency''])"
| "has_documented_type name (FBool b) = (name \<in> set [''encrypted'', ''civilian_safe''])"

fun satisfies :: "string \<Rightarrow> fval \<Rightarrow> feed \<Rightarrow> bool" where
  "satisfies name (FStr v) r =
     (name = ''theater'' \<and> THEATER r = upper v \<or> name = ''codec'' \<and> CODEC r = upper v)"
| "satisfies name (FInt n) r =
     (name = ''min_width'' \<and> n \<le> RES_W r \<or> name = ''min_height'' \<and> n \<le> RES_H r \<or>
      name = ''max_latency'' \<and> LAT_MS r \<le> n)"
| "satisfies name (FBool b) r =
     (name = ''encrypted'' \<and> ENCR r = b \<or> name = ''civilian_safe'' \<and> CIV_OK r = b)"

definition well_typed :: "filters \<Rightarrow> bool" where
  "well_typed fs =
     list_all (\<lambda>name. case fs name of None \<Rightarrow> True | Some v \<Rightarrow> has_documented_type name v)
       supported_filters"

definition satisfies_all :: "filters \<Rightarrow> feed \<Rightarrow> bool" where
  "satisfies_all fs r =
     list_all (\<lambda>name. case fs name of None \<Rightarrow> True | Some v \<Rightarrow> satisfies name v r)
       supported_filters"

definition supplied :: "filters \<Rightarrow> (string \<times> fval) list" where
  "supplied fs =
     concat (map (\<lambda>name. case fs name of None \<Rightarrow> [] | Some v \<Rightarrow> [(name, v)]) supported_filters)"

text \<open>
  The state of a search that has not raised, seen from the catalog \<open>cat\<close> of the loader
  \<open>s\<close> it started from: the current frame is the catalog restricted to the records that
  satisfy \<open>P\<close>, and \<open>applied\<close> are the filters recorded so far.
\<close>

definition search_invariant ::
  "data_loader \<Rightarrow> frame \<Rightarrow> (feed \<Rightarrow> bool) \<Rightarrow> (string \<times> fval) list \<Rightarrow> search_state \<Rightarrow> bool" where
  "search_invariant s cat P applied st =
     (case st of
        (Inl e, s1) \<Rightarrow> False
      | (Inr (a, applied'), s1) \<Rightarrow>
          applied' = applied \<and> a < length (heap s1) \<and>
          deref s1 a = cat\<lparr>rows := filter (\<lambda>r. P (fst r)) (rows cat)\<rparr> \<and> extends s s1)"

subsection \<open>Example data\<close>

text \<open>The two feeds of the end-to-end example, two more feeds, and tools loaded with them.\<close>

definition fd_001 :: feed where
  "fd_001 = \<lparr>FEED_ID = ''FD-001'', THEATER = ''PAC'', CODEC = ''H265'', RES_W = 3840,
             RES_H = 2160, LAT_MS = 150, MODL_TAG = Some ''Viper-VL'', ENCR = True,
             CIV_OK = True\<rparr>"

definition fd_002 :: feed where
  "fd_002 = \<lparr>FEED_ID = ''FD-002'', THEATER = ''EUR'', CODEC = ''H264'', RES_W = 1280,
             RES_H = 720, LAT_MS = 800, MODL_TAG = None, ENCR = False, CIV_OK = False\<rparr>"

definition fd_003 :: feed where
  "fd_003 = \<lparr>FEED_ID = ''FD-003'', THEATER = ''EUR'', CODEC = ''MPEG2'', RES_W = 640,
             RES_H = 480, LAT_MS = 900, MODL_TAG = None, ENCR = False, CIV_OK = True\<rparr>"

definition fd_004 :: feed where
  "fd_004 = \<lparr>FEED_ID = ''FD-004'', THEATER = ''ME'', CODEC = ''H264'', RES_W = 1280,
             RES_H = 720, LAT_MS = 300, MODL_TAG = None, ENCR = True, CIV_OK = False\<rparr>"

definition csv_columns :: "string list" where
  "csv_columns =
     [''FEED_ID'', ''THEATER'', ''CODEC'', ''RES_W'', ''RES_H'', ''LAT_MS'', ''MODL_TAG'',
      ''ENCR'', ''CIV_OK'']"

definition example_table :: frame where
  "example_table = \<lparr>columns = csv_columns, rows = [(fd_001, None), (fd_002, None)]\<rparr>"

definition example_tools :: data_loader where
  "example_tools = MCPTools_init example_table"

definition ranking_table :: frame where
  "ranking_table =
     \<lparr>columns = csv_columns,
      rows = [(fd_002, None), (fd_003, None), (fd_004, None), (fd_001, None)]\<rparr>"

definition ranking_tools :: data_loader where
  "ranking_tools = MCPTools_init ranking_table"

definition state_of :: "py_dict \<Rightarrow> query_state" where
  "state_of i = \<lparr>intent = i, data_results = None, error = None\<rparr>"

definition eur_h265_intent :: py_dict where
  "eur_h265_intent =
     [''intent'' \<mapsto> PStr ''search'', ''theater'' \<mapsto> PStr ''EUR'', ''codec'' \<mapsto> PStr ''H265'',
      ''quality'' \<mapsto> PStr ''high'']"

definition get_info_intent :: py_dict where
  "get_info_intent =
     [''intent'' \<mapsto> PStr ''get_info'', ''theater'' \<mapsto> PStr ''EUR'', ''codec'' \<mapsto> PStr ''H265'']"

definition plain_intent :: py_dict where
  "plain_intent = [''intent'' \<mapsto> PStr ''search'', ''quality'' \<mapsto> PStr ''any'']"

definition plain_get_info_intent :: py_dict where
  "plain_get_info_intent = [''intent'' \<mapsto> PStr ''get_info'']"

text \<open>
  The intent the fallback of \<^verbatim>\<open>_parse_query\<close> builds for a query without any of its
  keywords: every hint is \<^verbatim>\<open>None\<close>.
\<close>

definition fallback_intent :: py_dict where
  "fallback_intent =
     [''intent'' \<mapsto> PStr ''search'', ''theater'' \<mapsto> PNone, ''codec'' \<mapsto> PNone,
      ''resolution'' \<mapsto> PNone, ''quality'' \<mapsto> PNone, ''latency'' \<mapsto> PNone,
      ''other_filters'' \<mapsto> PDict []]"

definition error_intent :: py_dict where
  "error_intent = [''intent'' \<mapsto> PStr ''error'', ''error'' \<mapsto> PStr ''no answer'']"

section \<open>Lemmas about the store\<close>

lemma extends_refl: "extends s s"
  by (simp add: extends_def)

lemma extends_trans: "extends s s1 \<Longrightarrow> extends s1 s2 \<Longrightarrow> extends s s2"
proof -
  assume a: "extends s s1" and b: "extends s1 s2"
  have l: "length (heap s) \<le> length (heap s1)" "length (heap s1) \<le> length (heap s2)"
    using a b by (simp_all add: extends_def)
  have "take (length (heap s)) (heap s2) = take (length (heap s)) (take (length (heap s1)) (heap s2))"
    using l by (simp add: min_def)
  also have "\<dots> = take (length (heap s)) (heap s1)"
    using b by (simp add: extends_def)
  also have "\<dots> = heap s"
    using a by (simp add: extends_def)
  finally show ?thesis
    using a b l by (simp add: extends_def)
qed

lemma extends_alloc: "extends s (snd (alloc f s))"
  by (simp add: extends_def alloc_def)

lemma catalog_extends:
  assumes "catalog s = Some cat" and "extends s s'"
  shows "catalog s' = Some cat"
proof -
  from assms(1) obtain a where a: "camera_feeds s = Some a" "a < length (heap s)" "heap s ! a = cat"
    by (auto simp: catalog_def split: option.splits if_splits)
  from assms(2) have c: "camera_feeds s' = Some a" and l: "length (heap s) \<le> length (heap s')"
    and t: "take (length (heap s)) (heap s') = heap s"
    using a by (auto simp: extends_def)
  have "heap s' ! a = take (length (heap s)) (heap s') ! a"
    using a(2) by simp
  then have "heap s' ! a = cat" using t a(3) by simp
  then show ?thesis using c l a(2) by (simp add: catalog_def)
qed

lemma alloc_view: "view (alloc f s) = f" "valid (alloc f s)"
  by (simp_all add: view_def valid_def alloc_def deref_def)

lemma getitem_mask_view:
  "view (getitem_mask p a s) = (deref s a)\<lparr>rows := filter (\<lambda>r. p (fst r)) (rows (deref s a))\<rparr>"
  "valid (getitem_mask p a s)"
  "extends s (snd (getitem_mask p a s))"
  by (simp_all add: getitem_mask_def Let_def alloc_view extends_alloc)

lemma get_camera_feeds_loaded:
  assumes "catalog s = Some cat"
  shows "get_camera_feeds s = (the (camera_feeds s), s)"
    and "deref s (the (camera_feeds s)) = cat"
    and "the (camera_feeds s) < length (heap s)"
  using assms
  by (auto simp: catalog_def get_camera_feeds_def deref_def split: option.splits if_splits)

lemma filter_catalog:
  assumes "catalog s = Some cat"
  shows "view (case get_camera_feeds s of (df, s1) \<Rightarrow> getitem_mask p df s1) =
           cat\<lparr>rows := filter (\<lambda>r. p (fst r)) (rows cat)\<rparr>"
    and "extends s (snd (case get_camera_feeds s of (df, s1) \<Rightarrow> getitem_mask p df s1))"
  using get_camera_feeds_loaded [OF assms] by (simp_all add: getitem_mask_view)

lemma if_bound_view:
  assumes "valid fs"
  shows "view (if_bound b c fs) =
           (view fs)\<lparr>rows := filter (\<lambda>r. case b of None \<Rightarrow> True | Some n \<Rightarrow> n = 0 \<or> c n (fst r))
                                   (rows (view fs))\<rparr>"
    and "valid (if_bound b c fs)"
    and "extends (snd fs) (snd (if_bound b c fs))"
proof -
  show "view (if_bound b c fs) =
           (view fs)\<lparr>rows := filter (\<lambda>r. case b of None \<Rightarrow> True | Some n \<Rightarrow> n = 0 \<or> c n (fst r))
                                   (rows (view fs))\<rparr>"
    by (cases b) (simp_all add: if_bound_def getitem_mask_view, simp add: view_def)
  show "valid (if_bound b c fs)"
    using assms by (cases b) (simp_all add: if_bound_def getitem_mask_view)
  show "extends (snd fs) (snd (if_bound b c fs))"
    by (cases b) (simp_all add: if_bound_def getitem_mask_view extends_refl)
qed

lemma result_of_view:
  "result_of (snd fs) (fst fs) e =
     \<lparr>feeds = rows (view fs), result_count = length (rows (view fs)),
      result_columns = columns (view fs), echo = e\<rparr>"
  by (simp add: result_of_def to_dict_records_def len_def columns_list_def view_def)

section \<open>Lemmas about the loader and the tools\<close>

lemma get_feeds_by_latency_view:
  assumes "catalog s = Some cat"
  shows "view (get_feeds_by_latency max_latency min_latency s) =
           cat\<lparr>rows := filter (\<lambda>r. (case max_latency of None \<Rightarrow> True
                                        | Some n \<Rightarrow> n = 0 \<or> LAT_MS (fst r) \<le> n) \<and>
                                     (case min_latency of None \<Rightarrow> True
                                        | Some n \<Rightarrow> n = 0 \<or> n \<le> LAT_MS (fst r))) (rows cat)\<rparr>"
    and "extends s (snd (get_feeds_by_latency max_latency min_latency s))"
proof -
  let ?f0 = "get_camera_feeds s"
  let ?f1 = "if_bound max_latency (\<lambda>n r. LAT_MS r \<le> n) ?f0"
  let ?f2 = "if_bound min_latency (\<lambda>n r. n \<le> LAT_MS r) ?f1"
  have v0: "valid ?f0" "view ?f0 = cat" "snd ?f0 = s"
    using get_camera_feeds_loaded [OF assms] by (simp_all add: valid_def view_def)
  note s1 = if_bound_view [OF v0(1), of max_latency "\<lambda>n r. LAT_MS r \<le> n"]
  note s2 = if_bound_view [OF s1(2), of min_latency "\<lambda>n r. n \<le> LAT_MS r"]
  have e: "get_feeds_by_latency max_latency min_latency s = ?f2"
    by (simp add: get_feeds_by_latency_def Let_def)
  show "view (get_feeds_by_latency max_latency min_latency s) =
           cat\<lparr>rows := filter (\<lambda>r. (case max_latency of None \<Rightarrow> True
                                        | Some n \<Rightarrow> n = 0 \<or> LAT_MS (fst r) \<le> n) \<and>
                                     (case min_latency of None \<Rightarrow> True
                                        | Some n \<Rightarrow> n = 0 \<or> n \<le> LAT_MS (fst r))) (rows cat)\<rparr>"
    unfolding e s2(1) s1(1) v0(2) by (simp add: conj_commute)
  show "extends s (snd (get_feeds_by_latency max_latency min_latency s))"
    unfolding e using extends_trans [OF s1(3) s2(3)] v0(3) by simp
qed

lemma get_feeds_by_resolution_view:
  assumes "catalog s = Some cat"
  shows "view (get_feeds_by_resolution min_width min_height max_width max_height s) =
           cat\<lparr>rows := filter (\<lambda>r. (case min_width of None \<Rightarrow> True
                                        | Some n \<Rightarrow> n = 0 \<or> n \<le> RES_W (fst r)) \<and>
                                     (case min_height of None \<Rightarrow> True
                                        | Some n \<Rightarrow> n = 0 \<or> n \<le> RES_H (fst r)) \<and>
                                     (case max_width of None \<Rightarrow> True
                                        | Some n \<Rightarrow> n = 0 \<or> RES_W (fst r) \<le> n) \<and>
                                     (case max_height of None \<Rightarrow> True
                                        | Some n \<Rightarrow> n = 0 \<or> RES_H (fst r) \<le> n)) (rows cat)\<rparr>"
    and "extends s (snd (get_feeds_by_resolution min_width min_height max_width max_height s))"
proof -
  let ?f0 = "get_camera_feeds s"
  let ?f1 = "if_bound min_width (\<lambda>n r. n \<le> RES_W r) ?f0"
  let ?f2 = "if_bound min_height (\<lambda>n r. n \<le> RES_H r) ?f1"
  let ?f3 = "if_bound max_width (\<lambda>n r. RES_W r \<le> n) ?f2"
  let ?f4 = "if_bound max_height (\<lambda>n r. RES_H r \<le> n) ?f3"
  have v0: "valid ?f0" "view ?f0 = cat" "snd ?f0 = s"
    using get_camera_feeds_loaded [OF assms] by (simp_all add: valid_def view_def)
  note s1 = if_bound_view [OF v0(1), of min_width "\<lambda>n r. n \<le> RES_W r"]
  note s2 = if_bound_view [OF s1(2), of min_height "\<lambda>n r. n \<le> RES_H r"]
  note s3 = if_bound_view [OF s2(2), of max_width "\<lambda>n r. RES_W r \<le> n"]
  note s4 = if_bound_view [OF s3(2), of max_height "\<lambda>n r. RES_H r \<le> n"]
  have e: "get_feeds_by_resolution min_width min_height max_width max_height s = ?f4"
    by (simp add: get_feeds_by_resolution_def Let_def)
  show "view (get_feeds_by_resolution min_width min_height max_width max_height s) =
           cat\<lparr>rows := filter (\<lambda>r. (case min_width of None \<Rightarrow> True
                                        | Some n \<Rightarrow> n = 0 \<or> n \<le> RES_W (fst r)) \<and>
                                     (case min_height of None \<Rightarrow> True
                                        | Some n \<Rightarrow> n = 0 \<or> n \<le> RES_H (fst r)) \<and>
                                     (case max_width of None \<Rightarrow> True
                                        | Some n \<Rightarrow> n = 0 \<or> RES_W (fst r) \<le> n) \<and>
                                     (case max_height of None \<Rightarrow> True
                                        | Some n \<Rightarrow> n = 0 \<or> RES_H (fst r) \<le> n)) (rows cat)\<rparr>"
    unfolding e s4(1) s3(1) s2(1) s1(1) v0(2)
    by simp
  have "extends s (snd ?f2)"
    using extends_trans [OF s1(3) s2(3)] v0(3) by simp
  then have "extends s (snd ?f4)"
    using extends_trans [OF s3(3) s4(3)] extends_trans by blast
  then show "extends s (snd (get_feeds_by_resolution min_width min_height max_width max_height s))"
    unfolding e .
qed

lemma quality_score_column_eq: "quality_score_column rs = map quality_points rs"
  by (induction rs) (simp_all add: quality_score_column_def quality_points_def)

lemma setitem_rows:
  "map (\<lambda>(r, q). (fst r, Some q)) (zip xs (map f (map fst xs))) =
   map (\<lambda>r. (fst r, Some (f (fst r)))) xs"
  by (induction xs) auto

lemma with_quality_score_view:
  assumes "catalog s = Some cat"
  shows "view (with_quality_score s) =
           \<lparr>columns = (if ''quality_score'' \<in> set (columns cat) then columns cat
                        else columns cat @ [''quality_score'']),
            rows = map (\<lambda>r. (fst r, Some (quality_points (fst r)))) (rows cat)\<rparr>"
    and "valid (with_quality_score s)"
    and "extends s (snd (with_quality_score s))"
proof -
  let ?a = "the (camera_feeds s)"
  have g: "get_camera_feeds s = (?a, s)" "deref s ?a = cat"
    using get_camera_feeds_loaded [OF assms] by simp_all
  let ?f' = "\<lparr>columns = (if ''quality_score'' \<in> set (columns cat) then columns cat
                        else columns cat @ [''quality_score'']),
            rows = map (\<lambda>r. (fst r, Some (quality_points (fst r)))) (rows cat)\<rparr>"
  have c: "copy_frame ?a s = (length (heap s), s\<lparr>heap := heap s @ [cat]\<rparr>)"
    by (simp add: copy_frame_def alloc_def g(2))
  have d: "deref (s\<lparr>heap := heap s @ [cat]\<rparr>) (length (heap s)) = cat"
    by (simp add: deref_def)
  have u: "setitem_quality_score (length (heap s)) (map quality_points (map fst (rows cat)))
             (s\<lparr>heap := heap s @ [cat]\<rparr>) = s\<lparr>heap := heap s @ [?f']\<rparr>"
    unfolding setitem_quality_score_def d setitem_rows Let_def by simp
  have w: "with_quality_score s = (length (heap s), s\<lparr>heap := heap s @ [?f']\<rparr>)"
    unfolding with_quality_score_def g
    by (simp only: Let_def prod.case c g(2) quality_score_column_eq u)
  show "view (with_quality_score s) = ?f'"
    unfolding w by (simp add: view_def deref_def)
  show "valid (with_quality_score s)"
    unfolding w by (simp add: valid_def)
  show "extends s (snd (with_quality_score s))"
    unfolding w by (simp add: extends_def)
qed

section \<open>Lemmas about sorting\<close>

lemma sorted_uminus_rev: "sorted (map uminus (ys :: int list)) \<longleftrightarrow> sorted (rev ys)"
  by (induction ys) (auto simp: sorted_append)

lemma stable_argsort_descending: "argsort_descending stable_argsort"
proof -
  have "sorted (rev (map ((!) keys) (stable_argsort keys)))" for keys
  proof -
    have "sorted (map (\<lambda>i. - (keys ! i)) (stable_argsort keys))"
      unfolding stable_argsort_def by (rule sorted_sort_key)
    then have "sorted (map uminus (map ((!) keys) (stable_argsort keys)))"
      by (simp add: comp_def)
    then show ?thesis
      by (simp only: sorted_uminus_rev)
  qed
  then show ?thesis
    by (simp add: argsort_descending_def stable_argsort_def)
qed

lemma argsort_in_range:
  assumes "argsort_descending argsort"
  shows "set (argsort keys) = {0..<length keys}"
proof -
  have "mset (argsort keys) = mset [0..<length keys]"
    using assms by (simp add: argsort_descending_def)
  then have "set (argsort keys) = set [0..<length keys]"
    by (rule mset_eq_setD)
  then show ?thesis by simp
qed

lemma take_rows_mset:
  assumes "argsort_descending argsort" and "length keys = length xs"
  shows "mset (map (\<lambda>i. xs ! i) (argsort keys)) = mset xs"
proof -
  have "mset (map (\<lambda>i. xs ! i) (argsort keys)) = image_mset (\<lambda>i. xs ! i) (mset (argsort keys))"
    by simp
  also have "\<dots> = image_mset (\<lambda>i. xs ! i) (mset [0..<length xs])"
    using assms by (simp add: argsort_descending_def)
  also have "\<dots> = mset (map (\<lambda>i. xs ! i) [0..<length xs])"
    by simp
  also have "\<dots> = mset xs"
    by (simp add: map_nth)
  finally show ?thesis .
qed

lemma those_map_Some: "those (map (\<lambda>x. Some (f x)) xs) = Some (map f xs)"
  by (induction xs) simp_all

lemma sort_values_view:
  assumes "valid fs"
    and "''quality_score'' \<in> set (columns (view fs))"
    and "rows (view fs) = map (\<lambda>r. (fst r, Some (q (fst r)))) xs"
  shows "sort_values_quality_score argsort (fst fs) (snd fs) =
           (Inr (length (heap (snd fs))),
            (snd fs)\<lparr>heap := heap (snd fs) @
               [(view fs)\<lparr>rows := map (\<lambda>i. rows (view fs) ! i) (argsort (map (\<lambda>r. q (fst r)) xs))\<rparr>]\<rparr>)"
proof -
  have t: "those (map snd (rows (view fs))) = Some (map (\<lambda>r. q (fst r)) xs)"
    unfolding assms(3) using those_map_Some [of "\<lambda>r. q (fst r)" xs] by (simp add: comp_def)
  show ?thesis
    using assms(2) t
    by (simp add: sort_values_quality_score_def Let_def alloc_def view_def [symmetric])
qed

lemma high_quality_feeds_loaded:
  assumes "catalog s = Some cat"
  shows "fst (high_quality_feeds argsort s) =
           Inr \<lparr>feeds = map (\<lambda>i. map (\<lambda>r. (fst r, Some (quality_points (fst r)))) (rows cat) ! i)
                            (argsort (map (\<lambda>r. quality_points (fst r)) (rows cat))),
                result_count = length (argsort (map (\<lambda>r. quality_points (fst r)) (rows cat))),
                result_columns = (if ''quality_score'' \<in> set (columns cat) then columns cat
                                  else columns cat @ [''quality_score'']),
                echo = [(''quality_metrics'',
                         PDict [(''resolution_weight'', PInt 3), (''codec_weight'', PInt 2),
                                (''latency_weight'', PInt 1)])]\<rparr>"
    and "extends s (snd (high_quality_feeds argsort s))"
proof -
  let ?w = "with_quality_score s"
  note w = with_quality_score_view [OF assms]
  have c: "''quality_score'' \<in> set (columns (view ?w))"
    unfolding w(1) by simp
  have r: "rows (view ?w) = map (\<lambda>r. (fst r, Some (quality_points (fst r)))) (rows cat)"
    unfolding w(1) by simp
  note sv = sort_values_view [OF w(2) c r, of argsort]
  have g: "get_high_quality_feeds argsort s =
             sort_values_quality_score argsort (fst ?w) (snd ?w)"
    by (simp add: get_high_quality_feeds_def split: prod.splits)
  let ?s' = "snd (sort_values_quality_score argsort (fst ?w) (snd ?w))"
  have x: "extends (snd ?w) ?s'"
    unfolding sv by (simp add: extends_def)
  show "extends s (snd (high_quality_feeds argsort s))"
    using extends_trans [OF w(3) x]
    by (simp add: high_quality_feeds_def g sv)
  show "fst (high_quality_feeds argsort s) =
           Inr \<lparr>feeds = map (\<lambda>i. map (\<lambda>r. (fst r, Some (quality_points (fst r)))) (rows cat) ! i)
                            (argsort (map (\<lambda>r. quality_points (fst r)) (rows cat))),
                result_count = length (argsort (map (\<lambda>r. quality_points (fst r)) (rows cat))),
                result_columns = (if ''quality_score'' \<in> set (columns cat) then columns cat
                                  else columns cat @ [''quality_score'']),
                echo = [(''quality_metrics'',
                         PDict [(''resolution_weight'', PInt 3), (''codec_weight'', PInt 2),
                                (''latency_weight'', PInt 1)])]\<rparr>"
    unfolding high_quality_feeds_def g sv
    by (simp add: result_of_def to_dict_records_def len_def columns_list_def deref_def w(1))
qed

section \<open>The quality ranking\<close>

lemma example_tools_eq:
  "example_tools =
     \<lparr>heap = [example_table], camera_feeds = Some 0, table_feeds_v2 = example_table\<rparr>"
  by (simp add: example_tools_def MCPTools_init_def load_all_data_def alloc_def)

lemma catalog_example_tools: "catalog example_tools = Some example_table"
  by (simp add: example_tools_eq catalog_def)

lemma ranking_tools_eq:
  "ranking_tools =
     \<lparr>heap = [ranking_table], camera_feeds = Some 0, table_feeds_v2 = ranking_table\<rparr>"
  by (simp add: ranking_tools_def MCPTools_init_def load_all_data_def alloc_def)

lemma catalog_ranking_tools: "catalog ranking_tools = Some ranking_table"
  by (simp add: ranking_tools_eq catalog_def)

lemma quality_points_examples:
  "quality_points fd_001 = 6" "quality_points fd_002 = 0" "quality_points fd_003 = 0"
  "quality_points fd_004 = 1"
  by (simp_all add: quality_points_def fd_001_def fd_002_def fd_003_def fd_004_def)

lemma quality_points_range: "quality_points r \<in> {0, 1, 2, 3, 4, 5, 6}"
  by (simp add: quality_points_def)

lemma ranked_rows:
  fixes xs :: "row list"
  assumes "argsort_descending argsort"
  defines "scored \<equiv> map (\<lambda>r. (fst r, Some (quality_points (fst r)))) xs"
  defines "ranked \<equiv> map (\<lambda>i. scored ! i) (argsort (map (\<lambda>r. quality_points (fst r)) xs))"
  shows "mset ranked = mset scored"
    and "sorted (rev (map (\<lambda>row. quality_points (fst row)) ranked))"
    and "length ranked = length xs"
proof -
  let ?keys = "map (\<lambda>r. quality_points (fst r)) xs"
  have l: "length ?keys = length scored"
    by (simp add: scored_def)
  show m: "mset ranked = mset scored"
    unfolding ranked_def by (rule take_rows_mset [OF assms(1) l])
  have "length ranked = length scored"
    using m by (metis size_mset)
  then show "length ranked = length xs"
    by (simp add: scored_def)
  have "quality_points (fst (scored ! i)) = ?keys ! i" if "i \<in> set (argsort ?keys)" for i
  proof -
    have "i < length xs"
      using that argsort_in_range [OF assms(1), of ?keys] by simp
    then show ?thesis
      by (simp add: scored_def)
  qed
  then have "map (\<lambda>row. quality_points (fst row)) ranked = map ((!) ?keys) (argsort ?keys)"
    unfolding ranked_def by simp
  then show "sorted (rev (map (\<lambda>row. quality_points (fst row)) ranked))"
    using assms(1) by (simp add: argsort_descending_def)
qed

lemma ranking_scored:
  assumes "catalog s = Some cat" and "argsort_descending argsort"
  shows "rows (view (with_quality_score s)) =
           map (\<lambda>r. (fst r, Some (quality_points (fst r)))) (rows cat)
       \<and> (\<exists>res. fst (high_quality_feeds argsort s) = Inr res \<and>
              mset (map fst (feeds res)) = mset (map fst (rows cat)) \<and>
              (\<forall>row \<in> set (feeds res). \<exists>k.
                  snd row = Some k \<and> k = quality_points (fst row) \<and>
                  k \<in> {0, 1, 2, 3, 4, 5, 6}))"
proof -
  let ?scored = "map (\<lambda>r. (fst r, Some (quality_points (fst r)))) (rows cat)"
  let ?ranked = "map (\<lambda>i. ?scored ! i) (argsort (map (\<lambda>r. quality_points (fst r)) (rows cat)))"
  note r = ranked_rows [OF assms(2), of "rows cat"]
  have a: "rows (view (with_quality_score s)) = ?scored"
    by (simp add: with_quality_score_view [OF assms(1)])
  obtain res where res: "fst (high_quality_feeds argsort s) = Inr res" "feeds res = ?ranked"
    using high_quality_feeds_loaded(1) [OF assms(1), of argsort] by simp
  have "image_mset fst (mset ?ranked) = image_mset fst (mset ?scored)"
    by (rule arg_cong [OF r(1)])
  then have "mset (map fst ?ranked) = mset (map fst ?scored)"
    by (simp only: mset_map)
  also have "map fst ?scored = map fst (rows cat)"
    by simp
  finally have m: "mset (map fst (feeds res)) = mset (map fst (rows cat))"
    by (simp only: res(2))
  have e: "set ?ranked = set ?scored"
    using r(1) by (rule mset_eq_setD)
  have "\<forall>row \<in> set ?scored. snd row = Some (quality_points (fst row))"
    by auto
  then have "\<forall>row \<in> set (feeds res). snd row = Some (quality_points (fst row))"
    by (simp only: res(2) e)
  then have k: "\<forall>row \<in> set (feeds res). \<exists>k.
                  snd row = Some k \<and> k = quality_points (fst row) \<and>
                  k \<in> {0, 1, 2, 3, 4, 5, 6}"
    using quality_points_range by blast
  show ?thesis
    using a res(1) m k by blast
qed

text \<open>
  C2. Every record of the catalog gets a \<^verbatim>\<open>quality_score\<close> that is 3 for high resolution
  plus 2 for a modern codec plus 1 for low latency, so a number from 0 to 6: the scored copy
  holds the records of the catalog in their order, each with that score, and every row of
  the ranking carries that score of its own record.
\<close>

theorem quality_score_is_weighted_sum:
  assumes "catalog s = Some cat" and "argsort_descending argsort"
  shows "rows (view (with_quality_score s)) =
           map (\<lambda>r. (fst r,
                      Some (3 * of_bool (1920 \<le> RES_W (fst r) \<and> 1080 \<le> RES_H (fst r)) +
                            2 * of_bool (CODEC (fst r) \<in> {''H265'', ''AV1'', ''VP9''}) +
                            1 * of_bool (LAT_MS (fst r) \<le> 500)))) (rows cat)
       \<and> (\<exists>res. fst (high_quality_feeds argsort s) = Inr res \<and>
              mset (map fst (feeds res)) = mset (map fst (rows cat)) \<and>
              (\<forall>row \<in> set (feeds res). \<exists>k.
                  snd row = Some k \<and>
                  k = 3 * of_bool (1920 \<le> RES_W (fst row) \<and> 1080 \<le> RES_H (fst row)) +
                      2 * of_bool (CODEC (fst row) \<in> {''H265'', ''AV1'', ''VP9''}) +
                      1 * of_bool (LAT_MS (fst row) \<le> 500) \<and>
                  k \<in> {0, 1, 2, 3, 4, 5, 6}))"
  using ranking_scored [OF assms, unfolded quality_points_def] .

theorem quality_score_is_weighted_sum_witness:
  "catalog example_tools = Some example_table \<and> argsort_descending stable_argsort \<and>
   rows (view (with_quality_score example_tools)) = [(fd_001, Some 6), (fd_002, Some 0)]"
proof -
  note t = quality_score_is_weighted_sum [OF catalog_example_tools stable_argsort_descending]
  have "rows (view (with_quality_score example_tools)) = [(fd_001, Some 6), (fd_002, Some 0)]"
    using t [THEN conjunct1] by (simp add: example_table_def fd_001_def fd_002_def)
  then show ?thesis
    using catalog_example_tools stable_argsort_descending by simp
qed

text \<open>
  C3 (amended). The ranking returns every record of the catalog, each once and with its
  score, in descending order of the score. The order among records of equal score is the
  one the sorting routine of the library gives them.
\<close>

theorem quality_ranking_is_full_and_descending:
  assumes "catalog s = Some cat" and "argsort_descending argsort"
  shows "\<exists>res. fst (high_quality_feeds argsort s) = Inr res \<and>
           result_count res = length (rows cat) \<and>
           mset (feeds res) = mset (map (\<lambda>r. (fst r, Some (quality_points (fst r)))) (rows cat)) \<and>
           sorted (rev (map (\<lambda>row. quality_points (fst row)) (feeds res)))"
proof -
  let ?scored = "map (\<lambda>r. (fst r, Some (quality_points (fst r)))) (rows cat)"
  let ?ix = "argsort (map (\<lambda>r. quality_points (fst r)) (rows cat))"
  let ?ranked = "map (\<lambda>i. ?scored ! i) ?ix"
  note r = ranked_rows [OF assms(2), of "rows cat"]
  obtain res where res: "fst (high_quality_feeds argsort s) = Inr res" "feeds res = ?ranked"
    "result_count res = length ?ix"
    using high_quality_feeds_loaded(1) [OF assms(1), of argsort] by simp
  have "length ?ix = length (rows cat)"
    using r(3) by simp
  then have "result_count res = length (rows cat)"
    using res(3) by simp
  moreover have "mset (feeds res) = mset ?scored"
    unfolding res(2) by (rule r(1))
  moreover have "sorted (rev (map (\<lambda>row. quality_points (fst row)) (feeds res)))"
    unfolding res(2) by (rule r(2))
  ultimately show ?thesis
    using res(1) by blast
qed

lemma nargsort_descending_example: "nargsort_descending [0, 0, 1, 6] = [3, 2, 1, 0]"
  by code_simp

theorem stable_ranking_counterexample:
  "catalog ranking_tools = Some ranking_table \<and>
   rows ranking_table = [(fd_002, None), (fd_003, None), (fd_004, None), (fd_001, None)] \<and>
   fst (high_quality_feeds nargsort_descending ranking_tools) =
     Inr \<lparr>feeds = [(fd_001, Some 6), (fd_004, Some 1), (fd_003, Some 0), (fd_002, Some 0)],
          result_count = 4, result_columns = csv_columns @ [''quality_score''],
          echo = [(''quality_metrics'',
                   PDict [(''resolution_weight'', PInt 3), (''codec_weight'', PInt 2),
                          (''latency_weight'', PInt 1)])]\<rparr> \<and>
   \<not> ties_in_catalog_order (rows ranking_table)
        [(fd_001, Some 6), (fd_004, Some 1), (fd_003, Some 0), (fd_002, Some 0)]"
proof -
  have c: "''quality_score'' \<notin> set csv_columns"
    by (simp add: csv_columns_def)
  have h: "fst (high_quality_feeds nargsort_descending ranking_tools) =
     Inr \<lparr>feeds = [(fd_001, Some 6), (fd_004, Some 1), (fd_003, Some 0), (fd_002, Some 0)],
          result_count = 4, result_columns = csv_columns @ [''quality_score''],
          echo = [(''quality_metrics'',
                   PDict [(''resolution_weight'', PInt 3), (''codec_weight'', PInt 2),
                          (''latency_weight'', PInt 1)])]\<rparr>"
    unfolding high_quality_feeds_loaded(1) [OF catalog_ranking_tools]
    by (simp add: ranking_table_def quality_points_examples nargsort_descending_example c)
  have d: "fd_002 \<noteq> fd_003"
    by (simp add: fd_002_def fd_003_def)
  have "\<not> (map fst (filter (\<lambda>r. snd r = Some 0)
                 [(fd_001, Some 6), (fd_004, Some 1), (fd_003, Some 0), (fd_002, Some (0::int))]) =
            filter (\<lambda>r. quality_points r = 0) (map fst (rows ranking_table)))"
    using d by (simp add: ranking_table_def quality_points_examples)
  moreover have "(0::int) \<in> {0..6}"
    by simp
  ultimately have n: "\<not> ties_in_catalog_order (rows ranking_table)
        [(fd_001, Some 6), (fd_004, Some 1), (fd_003, Some 0), (fd_002, Some 0)]"
    unfolding ties_in_catalog_order_def by blast
  show ?thesis
    using catalog_ranking_tools h n by (simp add: ranking_table_def)
qed

theorem quality_ranking_is_full_and_descending_witness:
  "catalog example_tools = Some example_table \<and> argsort_descending stable_argsort \<and>
   (\<exists>res. fst (high_quality_feeds stable_argsort example_tools) = Inr res \<and>
      result_count res = 2 \<and>
      mset (feeds res) = mset [(fd_001, Some 6), (fd_002, Some 0)] \<and>
      sorted (rev (map (\<lambda>row. quality_points (fst row)) (feeds res))))"
  using quality_ranking_is_full_and_descending [OF catalog_example_tools stable_argsort_descending]
    catalog_example_tools stable_argsort_descending
  by (simp add: example_table_def quality_points_examples numeral_2_eq_2)

section \<open>Lookup by feed id\<close>

lemma deref_extends:
  assumes "extends s s'" and "a < length (heap s)"
  shows "deref s' a = deref s a"
proof -
  have "heap s' ! a = take (length (heap s)) (heap s') ! a"
    using assms(2) by simp
  also have "\<dots> = heap s ! a"
    using assms(1) by (simp add: extends_def)
  finally have e: "heap s' ! a = heap s ! a" .
  have "a < length (heap s')"
    using assms by (simp add: extends_def)
  then show ?thesis using assms(2) e by (simp add: deref_def)
qed

lemma get_feed_by_id_loaded:
  assumes "catalog s = Some cat"
  shows "fst (get_feed_by_id feed_id s) =
           (case filter (\<lambda>r. FEED_ID (fst r) = feed_id) (rows cat) of
              [] \<Rightarrow> [(''error'',
                      Text (''Feed ID '' @ [CHR 0x27] @ feed_id @ [CHR 0x27] @ '' not found'')),
                     (''available_feeds'', Feed_ids (take 10 (map (FEED_ID \<circ> fst) (rows cat))))]
            | r # _ \<Rightarrow> [(''feed'', Feed_row r), (''found'', Truth True)])"
    and "extends s (snd (get_feed_by_id feed_id s))"
proof -
  let ?a = "the (camera_feeds s)"
  note g = get_camera_feeds_loaded [OF assms]
  let ?m = "getitem_mask (\<lambda>r. FEED_ID r = feed_id) ?a s"
  note m = getitem_mask_view [where p = "\<lambda>r. FEED_ID r = feed_id" and a = ?a and s = s]
  have d: "deref (snd ?m) ?a = cat"
    using deref_extends [OF m(3) g(3)] g(2) by simp
  have r: "rows (deref (snd ?m) (fst ?m)) = filter (\<lambda>r. FEED_ID (fst r) = feed_id) (rows cat)"
    using m(1) g(2) by (simp add: view_def)
  have e: "get_feed_by_id feed_id s =
             (case rows (deref (snd ?m) (fst ?m)) of
                [] \<Rightarrow> ([(''error'',
                          Text (''Feed ID '' @ [CHR 0x27] @ feed_id @ [CHR 0x27] @ '' not found'')),
                         (''available_feeds'',
                          Feed_ids (take 10 (map (FEED_ID \<circ> fst) (rows (deref (snd ?m) ?a)))))],
                        snd ?m)
              | r # _ \<Rightarrow> ([(''feed'', Feed_row r), (''found'', Truth True)], snd ?m))"
    by (simp add: get_feed_by_id_def g(1) case_prod_beta cong: list.case_cong)
  show "fst (get_feed_by_id feed_id s) =
           (case filter (\<lambda>r. FEED_ID (fst r) = feed_id) (rows cat) of
              [] \<Rightarrow> [(''error'',
                      Text (''Feed ID '' @ [CHR 0x27] @ feed_id @ [CHR 0x27] @ '' not found'')),
                     (''available_feeds'', Feed_ids (take 10 (map (FEED_ID \<circ> fst) (rows cat))))]
            | r # _ \<Rightarrow> [(''feed'', Feed_row r), (''found'', Truth True)])"
    unfolding e r d by (simp split: list.splits)
  show "extends s (snd (get_feed_by_id feed_id s))"
    unfolding e using m(3) by (simp split: list.splits)
qed

text \<open>
  C4 (amended). The lookup of an id that no record of the catalog has returns a dictionary,
  not an exception: the dictionary with the error text and, as hints, the first ten feed ids
  of the catalog at most. That dictionary has no found entry at all; a found entry exists,
  and is true, exactly when a record has the id.
\<close>

theorem lookup_of_unknown_id:
  assumes "catalog s = Some cat"
  shows "(feed_id \<notin> set (map (FEED_ID \<circ> fst) (rows cat)) \<longrightarrow>
            fst (get_feed_by_id feed_id s) =
              [(''error'',
                Text (''Feed ID '' @ [CHR 0x27] @ feed_id @ [CHR 0x27] @ '' not found'')),
               (''available_feeds'', Feed_ids (take 10 (map (FEED_ID \<circ> fst) (rows cat))))] \<and>
            map_of (fst (get_feed_by_id feed_id s)) ''found'' = None \<and>
            length (take 10 (map (FEED_ID \<circ> fst) (rows cat))) \<le> 10 \<and>
            set (take 10 (map (FEED_ID \<circ> fst) (rows cat))) \<subseteq> set (map (FEED_ID \<circ> fst) (rows cat)))
       \<and> (feed_id \<in> set (map (FEED_ID \<circ> fst) (rows cat)) \<longrightarrow>
            map_of (fst (get_feed_by_id feed_id s)) ''found'' = Some (Truth True))
       \<and> catalog (snd (get_feed_by_id feed_id s)) = Some cat"
proof (intro conjI impI)
  assume "feed_id \<notin> set (map (FEED_ID \<circ> fst) (rows cat))"
  then have "filter (\<lambda>r. FEED_ID (fst r) = feed_id) (rows cat) = []"
    by (auto simp: filter_empty_conv)
  then show e: "fst (get_feed_by_id feed_id s) =
              [(''error'',
                Text (''Feed ID '' @ [CHR 0x27] @ feed_id @ [CHR 0x27] @ '' not found'')),
               (''available_feeds'', Feed_ids (take 10 (map (FEED_ID \<circ> fst) (rows cat))))]"
    using get_feed_by_id_loaded(1) [OF assms, of feed_id] by simp
  show "map_of (fst (get_feed_by_id feed_id s)) ''found'' = None"
    unfolding e by simp
  show "length (take 10 (map (FEED_ID \<circ> fst) (rows cat))) \<le> 10"
    by simp
  show "set (take 10 (map (FEED_ID \<circ> fst) (rows cat))) \<subseteq> set (map (FEED_ID \<circ> fst) (rows cat))"
    by (rule set_take_subset)
next
  assume "feed_id \<in> set (map (FEED_ID \<circ> fst) (rows cat))"
  then have "filter (\<lambda>r. FEED_ID (fst r) = feed_id) (rows cat) \<noteq> []"
    by (auto simp: filter_empty_conv)
  then obtain r rs where "filter (\<lambda>r. FEED_ID (fst r) = feed_id) (rows cat) = r # rs"
    by (cases "filter (\<lambda>r. FEED_ID (fst r) = feed_id) (rows cat)") auto
  then have "fst (get_feed_by_id feed_id s) = [(''feed'', Feed_row r), (''found'', Truth True)]"
    using get_feed_by_id_loaded(1) [OF assms, of feed_id] by simp
  then show "map_of (fst (get_feed_by_id feed_id s)) ''found'' = Some (Truth True)"
    by simp
next
  show "catalog (snd (get_feed_by_id feed_id s)) = Some cat"
    using catalog_extends [OF assms get_feed_by_id_loaded(2) [OF assms]] .
qed

theorem lookup_of_unknown_id_witness:
  "catalog example_tools = Some example_table \<and>
   ''FD-404'' \<notin> set (map (FEED_ID \<circ> fst) (rows example_table)) \<and>
   fst (get_feed_by_id ''FD-404'' example_tools) =
     [(''error'', Text ''Feed ID 'FD-404' not found''),
      (''available_feeds'', Feed_ids [''FD-001'', ''FD-002''])] \<and>
   ''FD-001'' \<in> set (map (FEED_ID \<circ> fst) (rows example_table)) \<and>
   map_of (fst (get_feed_by_id ''FD-001'' example_tools)) ''found'' = Some (Truth True)"
proof -
  have n: "''FD-404'' \<notin> set (map (FEED_ID \<circ> fst) (rows example_table))"
    by (simp add: example_table_def fd_001_def fd_002_def)
  have y: "''FD-001'' \<in> set (map (FEED_ID \<circ> fst) (rows example_table))"
    by (simp add: example_table_def fd_001_def fd_002_def)
  show ?thesis
    using lookup_of_unknown_id [OF catalog_example_tools, of "''FD-404''"]
      lookup_of_unknown_id [OF catalog_example_tools, of "''FD-001''"] n y catalog_example_tools
    by (simp add: example_table_def fd_001_def fd_002_def)
qed

theorem found_flag_counterexample:
  "''FD-404'' \<notin> set (map (FEED_ID \<circ> fst) (rows example_table)) \<and>
   catalog example_tools = Some example_table \<and>
   fst (get_feed_by_id ''FD-404'' example_tools) =
     [(''error'', Text ''Feed ID 'FD-404' not found''),
      (''available_feeds'', Feed_ids [''FD-001'', ''FD-002''])] \<and>
   map_of (fst (get_feed_by_id ''FD-404'' example_tools)) ''found'' \<noteq> Some (Truth False)"
proof -
  have e: "fst (get_feed_by_id ''FD-404'' example_tools) =
     [(''error'', Text ''Feed ID 'FD-404' not found''),
      (''available_feeds'', Feed_ids [''FD-001'', ''FD-002''])]"
    unfolding get_feed_by_id_loaded(1) [OF catalog_example_tools]
    by (simp add: example_table_def fd_001_def fd_002_def)
  show ?thesis
    unfolding e using catalog_example_tools
    by (simp add: example_table_def fd_001_def fd_002_def)
qed

section \<open>Range filters\<close>

lemma filter_by_latency_loaded:
  assumes "catalog s = Some cat"
  shows "feeds (fst (filter_by_latency max_latency min_latency s)) =
           filter (\<lambda>r. (case max_latency of None \<Rightarrow> True
                          | Some n \<Rightarrow> n = 0 \<or> LAT_MS (fst r) \<le> n) \<and>
                       (case min_latency of None \<Rightarrow> True
                          | Some n \<Rightarrow> n = 0 \<or> n \<le> LAT_MS (fst r))) (rows cat)"
  using get_feeds_by_latency_view(1) [OF assms, of max_latency min_latency]
  by (simp add: filter_by_latency_def case_prod_beta result_of_view)

lemma filter_by_resolution_loaded:
  assumes "catalog s = Some cat"
  shows "feeds (fst (filter_by_resolution min_width min_height max_width max_height s)) =
           filter (\<lambda>r. (case min_width of None \<Rightarrow> True
                          | Some n \<Rightarrow> n = 0 \<or> n \<le> RES_W (fst r)) \<and>
                       (case min_height of None \<Rightarrow> True
                          | Some n \<Rightarrow> n = 0 \<or> n \<le> RES_H (fst r)) \<and>
                       (case max_width of None \<Rightarrow> True
                          | Some n \<Rightarrow> n = 0 \<or> RES_W (fst r) \<le> n) \<and>
                       (case max_height of None \<Rightarrow> True
                          | Some n \<Rightarrow> n = 0 \<or> RES_H (fst r) \<le> n)) (rows cat)"
  using get_feeds_by_resolution_view(1) [OF assms, of min_width min_height max_width max_height]
  by (simp add: filter_by_resolution_def case_prod_beta result_of_view)

text \<open>
  C6. With the maximum latency 0 the latency filter returns every record of the example
  catalog, although their latencies are 150 and 800: a bound equal to 0 is taken as no
  bound. The same holds for a maximum width of 0.
\<close>

theorem zero_bound_is_ignored:
  "feeds (fst (filter_by_latency (Some 0) None example_tools)) = [(fd_001, None), (fd_002, None)]
   \<and> LAT_MS fd_001 = 150 \<and> LAT_MS fd_002 = 800
   \<and> feeds (fst (filter_by_resolution None None (Some 0) None example_tools)) =
       [(fd_001, None), (fd_002, None)]
   \<and> RES_W fd_001 = 3840 \<and> RES_W fd_002 = 1280"
  by (simp add: filter_by_latency_loaded [OF catalog_example_tools]
        filter_by_resolution_loaded [OF catalog_example_tools] example_table_def
        fd_001_def fd_002_def)

section \<open>The search with several filters\<close>

lemma apply_filter_cases:
  "apply_filter fs name cond (Inl e, s1) = (Inl e, s1)"
  "fs name = None \<Longrightarrow> apply_filter fs name cond (Inr (a, ap), s1) = (Inr (a, ap), s1)"
  "fs name = Some v \<Longrightarrow> cond v = Inl e \<Longrightarrow>
     apply_filter fs name cond (Inr (a, ap), s1) = (Inl e, s1)"
  "fs name = Some v \<Longrightarrow> cond v = Inr p \<Longrightarrow>
     apply_filter fs name cond (Inr (a, ap), s1) =
       (Inr (fst (getitem_mask p a s1), ap @ [(name, v)]), snd (getitem_mask p a s1))"
  by (simp_all add: apply_filter_def case_prod_beta)

lemma apply_filter_outcomes:
  obtains e s1 where "st = (Inl e, s1)" "apply_filter fs name cond st = (Inl e, s1)"
  | a ap s1 where "st = (Inr (a, ap), s1)" "apply_filter fs name cond st = st"
  | a ap s1 e where "st = (Inr (a, ap), s1)" "apply_filter fs name cond st = (Inl e, s1)"
  | a ap s1 v p where "st = (Inr (a, ap), s1)" "fs name = Some v"
      "apply_filter fs name cond st =
         (Inr (fst (getitem_mask p a s1), ap @ [(name, v)]), snd (getitem_mask p a s1))"
proof (cases st)
  case (Pair r s1)
  show ?thesis
  proof (cases r)
    case (Inl e)
    then show ?thesis using Pair that(1) [of e s1] by (simp add: apply_filter_cases)
  next
    case (Inr x)
    obtain a ap where x: "x = (a, ap)" by (cases x)
    show ?thesis
    proof (cases "fs name")
      case None
      then show ?thesis using Pair Inr x that(2) [of a ap s1] by (simp add: apply_filter_cases)
    next
      case (Some v)
      show ?thesis
      proof (cases "cond v")
        case (Inl e)
        then show ?thesis
          using Pair Inr x Some that(3) [of a ap s1 e] by (simp add: apply_filter_cases)
      next
        case c: (Inr p)
        show ?thesis
          using Pair Inr x Some c that(4) [of a ap s1 v p] by (simp add: apply_filter_cases)
      qed
    qed
  qed
qed

lemma apply_filter_invariant:
  assumes "search_invariant s cat P applied st"
    and "\<And>v. fs name = Some v \<Longrightarrow> cond v = Inr (sat v)"
  shows "search_invariant s cat
           (\<lambda>r. P r \<and> (case fs name of None \<Rightarrow> True | Some v \<Rightarrow> sat v r))
           (applied @ (case fs name of None \<Rightarrow> [] | Some v \<Rightarrow> [(name, v)]))
           (apply_filter fs name cond st)"
proof -
  obtain r s1 where st0: "st = (r, s1)"
    by (cases st)
  obtain x where r: "r = Inr x"
    using assms(1) unfolding st0 by (cases r) (simp_all add: search_invariant_def)
  obtain a ap where x: "x = (a, ap)"
    by (cases x)
  have st: "st = (Inr (a, ap), s1)"
    by (simp add: st0 r x)
  have inv: "ap = applied \<and> a < length (heap s1) \<and>
             deref s1 a = cat\<lparr>rows := filter (\<lambda>r. P (fst r)) (rows cat)\<rparr> \<and> extends s s1"
    using assms(1) unfolding st search_invariant_def by simp
  show ?thesis
  proof (cases "fs name")
    case None
    have "apply_filter fs name cond st = st"
      unfolding st using None by (simp add: apply_filter_cases)
    then show ?thesis
      using assms(1) None by simp
  next
    case (Some v)
    let ?m = "getitem_mask (sat v) a s1"
    have e: "apply_filter fs name cond st = (Inr (fst ?m, ap @ [(name, v)]), snd ?m)"
      unfolding st using Some assms(2) [OF Some] by (simp add: apply_filter_cases)
    have v1: "view ?m = (deref s1 a)\<lparr>rows := filter (\<lambda>r. sat v (fst r)) (rows (deref s1 a))\<rparr>"
      by (rule getitem_mask_view(1))
    have v2: "deref (snd ?m) (fst ?m) =
               cat\<lparr>rows := filter (\<lambda>r. P (fst r) \<and> sat v (fst r)) (rows cat)\<rparr>"
      using v1 inv by (simp add: view_def)
    have v3: "fst ?m < length (heap (snd ?m))"
      using getitem_mask_view(2) [where p = "sat v" and a = a and s = s1] by (simp add: valid_def)
    have v4: "extends s (snd ?m)"
      using inv getitem_mask_view(3) [where p = "sat v" and a = a and s = s1] extends_trans by blast
    have "search_invariant s cat (\<lambda>r. P r \<and> sat v r) (applied @ [(name, v)])
            (Inr (fst ?m, ap @ [(name, v)]), snd ?m)"
      unfolding search_invariant_def using inv v2 v3 v4 by simp
    then show ?thesis
      unfolding e using Some by simp
  qed
qed


lemma apply_filter_restrict:
  assumes "name \<in> S"
  shows "apply_filter (fs |` S) name cond st = apply_filter fs name cond st"
  using assms by (simp add: apply_filter_def split: prod.splits sum.splits)

lemma apply_filter_keys:
  assumes "case fst st of Inl e \<Rightarrow> True | Inr (a, applied) \<Rightarrow> fst ` set applied \<subseteq> S"
    and "name \<in> S"
  shows "case fst (apply_filter fs name cond st) of
           Inl e \<Rightarrow> True | Inr (a, applied) \<Rightarrow> fst ` set applied \<subseteq> S"
proof (cases rule: apply_filter_outcomes [of st fs name cond])
  case (1 e s1)
  then show ?thesis by simp
next
  case (2 a ap s1)
  then show ?thesis using assms by simp
next
  case (3 a ap s1 e)
  then show ?thesis by simp
next
  case (4 a ap s1 v p)
  then show ?thesis using assms by simp
qed

lemma search_feeds_steps:
  "search_feeds fs s =
     (case apply_filter fs ''civilian_safe'' (eq_bool CIV_OK)
            (apply_filter fs ''encrypted'' (eq_bool ENCR)
              (apply_filter fs ''max_latency'' (le_value LAT_MS)
                (apply_filter fs ''min_height'' (ge_value RES_H)
                  (apply_filter fs ''min_width'' (ge_value RES_W)
                    (apply_filter fs ''codec'' (eq_upper CODEC)
                      (apply_filter fs ''theater'' (eq_upper THEATER)
                        (Inr (fst (get_camera_feeds s), []), snd (get_camera_feeds s)))))))) of
        (Inl e, s1) \<Rightarrow> (Inl e, s1)
      | (Inr (df, applied), s1) \<Rightarrow>
          (Inr \<lparr>search_feeds_rows = to_dict_records s1 df, applied_filters = applied,
                search_count = len s1 df, search_columns = columns_list s1 df\<rparr>, s1))"
  by (simp add: search_feeds_def Let_def case_prod_beta)

lemma search_feeds_restrict:
  "search_feeds (fs |` set supported_filters) s = search_feeds fs s"
  unfolding search_feeds_steps
  by (simp add: apply_filter_restrict supported_filters_def)


lemma search_feeds_keys:
  assumes "fst (search_feeds fs s) = Inr res"
  shows "fst ` set (applied_filters res) \<subseteq> set supported_filters"
proof -
  let ?S = "set supported_filters"
  let ?st0 = "(Inr (fst (get_camera_feeds s), []), snd (get_camera_feeds s)) :: search_state"
  let ?st7 = "apply_filter fs ''civilian_safe'' (eq_bool CIV_OK)
            (apply_filter fs ''encrypted'' (eq_bool ENCR)
              (apply_filter fs ''max_latency'' (le_value LAT_MS)
                (apply_filter fs ''min_height'' (ge_value RES_H)
                  (apply_filter fs ''min_width'' (ge_value RES_W)
                    (apply_filter fs ''codec'' (eq_upper CODEC)
                      (apply_filter fs ''theater'' (eq_upper THEATER) ?st0))))))"
  have "case fst ?st0 of Inl e \<Rightarrow> True | Inr (a, applied) \<Rightarrow> fst ` set applied \<subseteq> ?S"
    by simp
  then have k: "case fst ?st7 of Inl e \<Rightarrow> True | Inr (a, applied) \<Rightarrow> fst ` set applied \<subseteq> ?S"
    by (intro apply_filter_keys) (simp_all add: supported_filters_def)
  obtain r s1 where st7: "?st7 = (r, s1)"
    by (cases ?st7)
  show ?thesis
  proof (cases r)
    case (Inl e)
    then show ?thesis
      using assms unfolding search_feeds_steps st7 by simp
  next
    case (Inr x)
    obtain a ap where x: "x = (a, ap)"
      by (cases x)
    have "applied_filters res = ap"
      using assms unfolding search_feeds_steps st7 Inr x by auto
    then show ?thesis
      using k unfolding st7 Inr x by simp
  qed
qed

lemma well_typed_conds:
  assumes "well_typed fs"
  shows "\<And>v. fs ''theater'' = Some v \<Longrightarrow> eq_upper THEATER v = Inr (satisfies ''theater'' v)"
    and "\<And>v. fs ''codec'' = Some v \<Longrightarrow> eq_upper CODEC v = Inr (satisfies ''codec'' v)"
    and "\<And>v. fs ''min_width'' = Some v \<Longrightarrow> ge_value RES_W v = Inr (satisfies ''min_width'' v)"
    and "\<And>v. fs ''min_height'' = Some v \<Longrightarrow> ge_value RES_H v = Inr (satisfies ''min_height'' v)"
    and "\<And>v. fs ''max_latency'' = Some v \<Longrightarrow> le_value LAT_MS v = Inr (satisfies ''max_latency'' v)"
    and "\<And>v. fs ''encrypted'' = Some v \<Longrightarrow> eq_bool ENCR v = Inr (satisfies ''encrypted'' v)"
    and "\<And>v. fs ''civilian_safe'' = Some v \<Longrightarrow> eq_bool CIV_OK v = Inr (satisfies ''civilian_safe'' v)"
proof -
  have t: "\<And>name v. name \<in> set supported_filters \<Longrightarrow> fs name = Some v \<Longrightarrow>
             has_documented_type name v"
    using assms by (auto simp: well_typed_def list_all_iff split: option.splits)
  show "eq_upper THEATER v = Inr (satisfies ''theater'' v)" if "fs ''theater'' = Some v" for v
    using t [OF _ that] by (cases v) (simp_all add: supported_filters_def fun_eq_iff)
  show "eq_upper CODEC v = Inr (satisfies ''codec'' v)" if "fs ''codec'' = Some v" for v
    using t [OF _ that] by (cases v) (simp_all add: supported_filters_def fun_eq_iff)
  show "ge_value RES_W v = Inr (satisfies ''min_width'' v)" if "fs ''min_width'' = Some v" for v
    using t [OF _ that] by (cases v) (simp_all add: supported_filters_def fun_eq_iff)
  show "ge_value RES_H v = Inr (satisfies ''min_height'' v)" if "fs ''min_height'' = Some v" for v
    using t [OF _ that] by (cases v) (simp_all add: supported_filters_def fun_eq_iff)
  show "le_value LAT_MS v = Inr (satisfies ''max_latency'' v)" if "fs ''max_latency'' = Some v" for v
    using t [OF _ that] by (cases v) (simp_all add: supported_filters_def fun_eq_iff)
  show "eq_bool ENCR v = Inr (satisfies ''encrypted'' v)" if "fs ''encrypted'' = Some v" for v
    using t [OF _ that] by (cases v) (simp_all add: supported_filters_def fun_eq_iff)
  show "eq_bool CIV_OK v = Inr (satisfies ''civilian_safe'' v)" if "fs ''civilian_safe'' = Some v" for v
    using t [OF _ that] by (cases v) (simp_all add: supported_filters_def fun_eq_iff)
qed

lemma search_feeds_well_typed:
  assumes "catalog s = Some cat" and "well_typed fs"
  shows "fst (search_feeds fs s) =
           Inr \<lparr>search_feeds_rows = filter (\<lambda>row. satisfies_all fs (fst row)) (rows cat),
                applied_filters = supplied fs,
                search_count = length (filter (\<lambda>row. satisfies_all fs (fst row)) (rows cat)),
                search_columns = columns cat\<rparr>"
proof -
  note g = get_camera_feeds_loaded [OF assms(1)]
  note c = well_typed_conds [OF assms(2)]
  let ?st0 = "(Inr (fst (get_camera_feeds s), []), snd (get_camera_feeds s)) :: search_state"
  have i0: "search_invariant s cat (\<lambda>r. True) [] ?st0"
    using g by (simp add: search_invariant_def extends_refl)
  note i1 = apply_filter_invariant [where fs = fs and name = "''theater''" and cond = "eq_upper THEATER"
      and sat = "satisfies ''theater''", OF i0 c(1)]
  note i2 = apply_filter_invariant [where fs = fs and name = "''codec''" and cond = "eq_upper CODEC"
      and sat = "satisfies ''codec''", OF i1 c(2)]
  note i3 = apply_filter_invariant [where fs = fs and name = "''min_width''" and cond = "ge_value RES_W"
      and sat = "satisfies ''min_width''", OF i2 c(3)]
  note i4 = apply_filter_invariant [where fs = fs and name = "''min_height''" and cond = "ge_value RES_H"
      and sat = "satisfies ''min_height''", OF i3 c(4)]
  note i5 = apply_filter_invariant [where fs = fs and name = "''max_latency''" and cond = "le_value LAT_MS"
      and sat = "satisfies ''max_latency''", OF i4 c(5)]
  note i6 = apply_filter_invariant [where fs = fs and name = "''encrypted''" and cond = "eq_bool ENCR"
      and sat = "satisfies ''encrypted''", OF i5 c(6)]
  note i7 = apply_filter_invariant [where fs = fs and name = "''civilian_safe''" and cond = "eq_bool CIV_OK"
      and sat = "satisfies ''civilian_safe''", OF i6 c(7)]
  let ?st7 = "apply_filter fs ''civilian_safe'' (eq_bool CIV_OK)
            (apply_filter fs ''encrypted'' (eq_bool ENCR)
              (apply_filter fs ''max_latency'' (le_value LAT_MS)
                (apply_filter fs ''min_height'' (ge_value RES_H)
                  (apply_filter fs ''min_width'' (ge_value RES_W)
                    (apply_filter fs ''codec'' (eq_upper CODEC)
                      (apply_filter fs ''theater'' (eq_upper THEATER) ?st0))))))"
  have p: "(\<lambda>r. ((((((True \<and> (case fs ''theater'' of None \<Rightarrow> True | Some v \<Rightarrow> satisfies ''theater'' v r)) \<and>
               (case fs ''codec'' of None \<Rightarrow> True | Some v \<Rightarrow> satisfies ''codec'' v r)) \<and>
               (case fs ''min_width'' of None \<Rightarrow> True | Some v \<Rightarrow> satisfies ''min_width'' v r)) \<and>
               (case fs ''min_height'' of None \<Rightarrow> True | Some v \<Rightarrow> satisfies ''min_height'' v r)) \<and>
               (case fs ''max_latency'' of None \<Rightarrow> True | Some v \<Rightarrow> satisfies ''max_latency'' v r)) \<and>
               (case fs ''encrypted'' of None \<Rightarrow> True | Some v \<Rightarrow> satisfies ''encrypted'' v r)) \<and>
               (case fs ''civilian_safe'' of None \<Rightarrow> True | Some v \<Rightarrow> satisfies ''civilian_safe'' v r))
           = satisfies_all fs"
    by (rule ext) (simp add: satisfies_all_def supported_filters_def)
  have a: "((((((([] @ (case fs ''theater'' of None \<Rightarrow> [] | Some v \<Rightarrow> [(''theater'', v)])) @
              (case fs ''codec'' of None \<Rightarrow> [] | Some v \<Rightarrow> [(''codec'', v)])) @
              (case fs ''min_width'' of None \<Rightarrow> [] | Some v \<Rightarrow> [(''min_width'', v)])) @
              (case fs ''min_height'' of None \<Rightarrow> [] | Some v \<Rightarrow> [(''min_height'', v)])) @
              (case fs ''max_latency'' of None \<Rightarrow> [] | Some v \<Rightarrow> [(''max_latency'', v)])) @
              (case fs ''encrypted'' of None \<Rightarrow> [] | Some v \<Rightarrow> [(''encrypted'', v)])) @
              (case fs ''civilian_safe'' of None \<Rightarrow> [] | Some v \<Rightarrow> [(''civilian_safe'', v)]))
           = supplied fs"
    by (simp add: supplied_def supported_filters_def)
  have i: "search_invariant s cat (satisfies_all fs) (supplied fs) ?st7"
    using i7 unfolding p a .
  obtain r s1 where st7: "?st7 = (r, s1)"
    by (cases ?st7)
  obtain x where r: "r = Inr x"
    using i unfolding st7 by (cases r) (simp_all add: search_invariant_def)
  obtain b ap where x: "x = (b, ap)"
    by (cases x)
  have inv: "ap = supplied fs \<and> b < length (heap s1) \<and>
             deref s1 b = cat\<lparr>rows := filter (\<lambda>row. satisfies_all fs (fst row)) (rows cat)\<rparr>"
    using i unfolding st7 r x search_invariant_def by simp
  show ?thesis
    unfolding search_feeds_steps st7 r x
    using inv by (simp add: to_dict_records_def len_def columns_list_def)
qed

lemma filter_by_theater_loaded:
  assumes "catalog s = Some cat"
  shows "fst (filter_by_theater theater s) =
           \<lparr>feeds = filter (\<lambda>r. THEATER (fst r) = upper theater) (rows cat),
            result_count = length (filter (\<lambda>r. THEATER (fst r) = upper theater) (rows cat)),
            result_columns = columns cat, echo = [(''theater'', PStr theater)]\<rparr>"
  using filter_catalog(1) [OF assms, of "\<lambda>r. THEATER r = upper theater"]
  by (simp add: filter_by_theater_def get_feeds_by_theater_def case_prod_beta result_of_view)

lemma filter_by_codec_loaded:
  assumes "catalog s = Some cat"
  shows "fst (filter_by_codec codec s) =
           \<lparr>feeds = filter (\<lambda>r. CODEC (fst r) = upper codec) (rows cat),
            result_count = length (filter (\<lambda>r. CODEC (fst r) = upper codec) (rows cat)),
            result_columns = columns cat, echo = [(''codec'', PStr codec)]\<rparr>"
  using filter_catalog(1) [OF assms, of "\<lambda>r. CODEC r = upper codec"]
  by (simp add: filter_by_codec_def get_feeds_by_codec_def case_prod_beta result_of_view)

lemma upper_examples: "upper ''PAC'' = ''PAC''" "upper ''H265'' = ''H265''" "upper ''pac'' = ''PAC''"
  by code_simp+

text \<open>
  C7. For every catalog, the search with the filters theater = PAC and codec = H265 returns
  exactly the records that the by-theater filter with PAC and the by-codec filter with H265
  both return, in the catalog's order. In general, when every supplied filter has a value
  of its documented kind, the search returns exactly the records that satisfy all supplied
  filters, and echoes the supplied filters.
\<close>

theorem search_is_conjunction_of_filters:
  assumes "catalog s = Some cat"
  shows "(\<exists>res. fst (search_feeds [''theater'' \<mapsto> FStr ''PAC'', ''codec'' \<mapsto> FStr ''H265''] s) = Inr res \<and>
            set (search_feeds_rows res) =
              set (feeds (fst (filter_by_theater ''PAC'' s))) \<inter>
              set (feeds (fst (filter_by_codec ''H265'' s))) \<and>
            search_feeds_rows res =
              filter (\<lambda>row. row \<in> set (feeds (fst (filter_by_codec ''H265'' s))))
                     (feeds (fst (filter_by_theater ''PAC'' s))))
       \<and> (\<forall>fs. well_typed fs \<longrightarrow>
             fst (search_feeds fs s) =
               Inr \<lparr>search_feeds_rows = filter (\<lambda>row. satisfies_all fs (fst row)) (rows cat),
                    applied_filters = supplied fs,
                    search_count = length (filter (\<lambda>row. satisfies_all fs (fst row)) (rows cat)),
                    search_columns = columns cat\<rparr>)"
proof -
  let ?fs = "[''theater'' \<mapsto> FStr ''PAC'', ''codec'' \<mapsto> FStr ''H265'']"
  let ?both = "filter (\<lambda>row. THEATER (fst row) = upper ''PAC'' \<and> CODEC (fst row) = upper ''H265'')
                 (rows cat)"
  have w: "well_typed ?fs"
    by (simp add: well_typed_def supported_filters_def)
  have sa: "satisfies_all ?fs = (\<lambda>r. THEATER r = upper ''PAC'' \<and> CODEC r = upper ''H265'')"
    by (rule ext) (simp add: satisfies_all_def supported_filters_def)
  obtain res where res: "fst (search_feeds ?fs s) = Inr res" "search_feeds_rows res = ?both"
    using search_feeds_well_typed [OF assms w] unfolding sa by simp
  have t: "feeds (fst (filter_by_theater ''PAC'' s)) =
             filter (\<lambda>r. THEATER (fst r) = upper ''PAC'') (rows cat)"
    by (simp add: filter_by_theater_loaded [OF assms])
  have c: "feeds (fst (filter_by_codec ''H265'' s)) =
             filter (\<lambda>r. CODEC (fst r) = upper ''H265'') (rows cat)"
    by (simp add: filter_by_codec_loaded [OF assms])
  have 1: "set (search_feeds_rows res) =
             set (feeds (fst (filter_by_theater ''PAC'' s))) \<inter>
             set (feeds (fst (filter_by_codec ''H265'' s)))"
    unfolding res(2) t c by auto
  have 2: "search_feeds_rows res =
             filter (\<lambda>row. row \<in> set (feeds (fst (filter_by_codec ''H265'' s))))
                    (feeds (fst (filter_by_theater ''PAC'' s)))"
    unfolding res(2) t c by (auto intro: filter_cong)
  show ?thesis
    using res(1) 1 2 search_feeds_well_typed [OF assms] by blast
qed

theorem search_is_conjunction_of_filters_witness:
  "catalog example_tools = Some example_table \<and>
   well_typed [''theater'' \<mapsto> FStr ''pac'', ''min_width'' \<mapsto> FInt 1920] \<and>
   fst (search_feeds [''theater'' \<mapsto> FStr ''pac'', ''min_width'' \<mapsto> FInt 1920] example_tools) =
     Inr \<lparr>search_feeds_rows = [(fd_001, None)],
          applied_filters = [(''theater'', FStr ''pac''), (''min_width'', FInt 1920)],
          search_count = 1, search_columns = csv_columns\<rparr>"
proof -
  let ?fs = "[''theater'' \<mapsto> FStr ''pac'', ''min_width'' \<mapsto> FInt 1920]"
  have w: "well_typed ?fs"
    by (simp add: well_typed_def supported_filters_def)
  have "fst (search_feeds ?fs example_tools) =
          Inr \<lparr>search_feeds_rows = filter (\<lambda>row. satisfies_all ?fs (fst row)) (rows example_table),
               applied_filters = supplied ?fs,
               search_count = length (filter (\<lambda>row. satisfies_all ?fs (fst row)) (rows example_table)),
               search_columns = columns example_table\<rparr>"
    using search_is_conjunction_of_filters [OF catalog_example_tools] w by blast
  then show ?thesis
    using w catalog_example_tools
    by (simp add: satisfies_all_def supplied_def supported_filters_def example_table_def
          fd_001_def fd_002_def upper_examples)
qed

text \<open>
  C10. A key of the filter mapping that is not one of the seven supported names is ignored:
  the search gives the same result and leaves the same loader as the search without the
  unknown keys, and every filter it echoes has a supported name.
\<close>

theorem unknown_filters_are_ignored:
  "search_feeds (fs |` set supported_filters) s = search_feeds fs s
   \<and> (\<forall>res. fst (search_feeds fs s) = Inr res \<longrightarrow>
          fst ` set (applied_filters res) \<subseteq> set supported_filters)"
  using search_feeds_restrict [of fs s] search_feeds_keys [of fs s] by blast

theorem unknown_filters_are_ignored_witness:
  "fst (search_feeds [''theater'' \<mapsto> FStr ''pac'', ''region'' \<mapsto> FStr ''west''] example_tools) =
     Inr \<lparr>search_feeds_rows = [(fd_001, None)], applied_filters = [(''theater'', FStr ''pac'')],
          search_count = 1, search_columns = csv_columns\<rparr>
   \<and> fst ` set [(''theater'', FStr ''pac'')] \<subseteq> set supported_filters"
proof -
  let ?fs = "[''theater'' \<mapsto> FStr ''pac'', ''region'' \<mapsto> FStr ''west'']"
  let ?known = "[''theater'' \<mapsto> FStr ''pac'']"
  have r: "?fs |` set supported_filters = ?known"
    by (rule ext) (simp add: restrict_map_def supported_filters_def)
  have w: "well_typed ?known"
    by (simp add: well_typed_def supported_filters_def)
  have k: "fst (search_feeds ?known example_tools) =
     Inr \<lparr>search_feeds_rows = [(fd_001, None)], applied_filters = [(''theater'', FStr ''pac'')],
          search_count = 1, search_columns = csv_columns\<rparr>"
    unfolding search_feeds_well_typed [OF catalog_example_tools w]
    by (simp add: satisfies_all_def supplied_def supported_filters_def example_table_def
          fd_001_def fd_002_def upper_examples)
  note u = unknown_filters_are_ignored [of ?fs example_tools]
  have e: "fst (search_feeds ?fs example_tools) = fst (search_feeds ?known example_tools)"
    using u [THEN conjunct1] unfolding r by simp
  show ?thesis
    using u [THEN conjunct2] e k by simp
qed

section \<open>The catalog is left as it is\<close>

lemma get_all_camera_feeds_loaded:
  assumes "catalog s = Some cat"
  shows "get_all_camera_feeds s =
           (\<lparr>feeds = rows cat, result_count = length (rows cat), result_columns = columns cat,
             echo = []\<rparr>, s)"
  using get_camera_feeds_loaded [OF assms]
  by (simp add: get_all_camera_feeds_def result_of_def to_dict_records_def len_def
        columns_list_def)


subsection \<open>Fresh frames\<close>












section \<open>The resolver\<close>

lemma run_single_call: "fst (snd (run_tool_calls argsort [c] results s)) = [c]"
  by (simp split: prod.splits sum.splits)

lemma intent_lookups:
  "dict_get eur_h265_intent ''intent'' = PStr ''search''"
  "dict_get eur_h265_intent ''theater'' = PStr ''EUR''"
  "dict_get eur_h265_intent ''codec'' = PStr ''H265''"
  "dict_get get_info_intent ''intent'' = PStr ''get_info''"
  "dict_get get_info_intent ''theater'' = PStr ''EUR''"
  "dict_get get_info_intent ''codec'' = PStr ''H265''"
  "dict_get plain_intent ''intent'' = PStr ''search''"
  "dict_get plain_intent ''theater'' = PNone"
  "dict_get plain_intent ''codec'' = PNone"
  "plain_intent ''quality'' = Some (PStr ''any'')"
  "dict_get plain_get_info_intent ''intent'' = PStr ''get_info''"
  "dict_get fallback_intent ''intent'' = PStr ''search''"
  "dict_get fallback_intent ''theater'' = PNone"
  "dict_get fallback_intent ''codec'' = PNone"
  "dict_get fallback_intent ''quality'' = PNone"
  "fallback_intent ''quality'' = Some PNone"
  "dict_get error_intent ''intent'' = PStr ''error''"
  "error_intent ''error'' = Some (PStr ''no answer'')"
  by (simp_all add: dict_get_def eur_h265_intent_def get_info_intent_def plain_intent_def
        plain_get_info_intent_def fallback_intent_def error_intent_def)

text \<open>
  C8. When the intent says \<^verbatim>\<open>error\<close>, the resolver returns at once: the results are the
  error entry taken from the intent, no tool is invoked, and the loader with its store and
  its catalog is handed back as it came.
\<close>

theorem error_intent_short_circuits:
  assumes "dict_get (intent state) ''intent'' = PStr ''error''"
  shows "execute_tools argsort state s =
           (state\<lparr>data_results :=
                     Some (Intent_error
                            (dict_get_default (intent state) ''error'' (PStr ''Unknown error'')))\<rparr>,
            [], s)"
  using assms by (simp add: execute_tools_def)

theorem error_intent_short_circuits_witness:
  "dict_get (intent (state_of error_intent)) ''intent'' = PStr ''error'' \<and>
   execute_tools stable_argsort (state_of error_intent) example_tools =
     (\<lparr>intent = error_intent, data_results = Some (Intent_error (PStr ''no answer'')),
       error = None\<rparr>, [], example_tools)"
proof -
  have h: "dict_get (intent (state_of error_intent)) ''intent'' = PStr ''error''"
    by (simp add: state_of_def intent_lookups)
  show ?thesis
    using error_intent_short_circuits [OF h, of stable_argsort example_tools] h
    by (simp add: state_of_def dict_get_default_def intent_lookups)
qed

text \<open>
  C1 (amended). For every intent whose kind is \<^verbatim>\<open>filter\<close>, \<^verbatim>\<open>search\<close> or
  \<^verbatim>\<open>analyze\<close>: when the theater hint is present (not null and not empty) the resolver
  invokes exactly one tool, the by-theater filter with the theater of the intent, whatever
  the codec and quality hints are; when the theater hint is absent and the codec hint is
  present it invokes exactly the by-codec filter, whatever the quality hint is.
\<close>

theorem theater_hint_wins:
  assumes "dict_get (intent state) ''intent'' \<in> {PStr ''filter'', PStr ''search'', PStr ''analyze''}"
  shows "(truthy (dict_get (intent state) ''theater'') \<longrightarrow>
            fst (snd (execute_tools argsort state s)) =
              [(''filter_by_theater'', [(''theater'', dict_get (intent state) ''theater'')])])
       \<and> (\<not> truthy (dict_get (intent state) ''theater'') \<and>
          truthy (dict_get (intent state) ''codec'') \<longrightarrow>
            fst (snd (execute_tools argsort state s)) =
              [(''filter_by_codec'', [(''codec'', dict_get (intent state) ''codec'')])])"
proof -
  have ne: "dict_get (intent state) ''intent'' \<noteq> PStr ''error''"
    using assms by auto
  have k: "dict_get (intent state) ''intent'' \<in> set [PStr ''filter'', PStr ''search'', PStr ''analyze'']"
    using assms by simp
  have e: "fst (snd (execute_tools argsort state s)) =
             (case select_tool_calls (intent state) of
                Inl e \<Rightarrow> []
              | Inr tool_calls \<Rightarrow> fst (snd (run_tool_calls argsort tool_calls Map.empty s)))"
    using ne by (simp add: execute_tools_def Let_def split: sum.splits prod.splits)
  show ?thesis
    unfolding e select_tool_calls_def using k
    by (simp add: run_single_call del: set_simps run_tool_calls.simps)
qed

theorem theater_hint_wins_witness:
  "dict_get (intent (state_of eur_h265_intent)) ''intent''
     \<in> {PStr ''filter'', PStr ''search'', PStr ''analyze''} \<and>
   truthy (dict_get (intent (state_of eur_h265_intent)) ''theater'') \<and>
   fst (snd (execute_tools stable_argsort (state_of eur_h265_intent) example_tools)) =
     [(''filter_by_theater'', [(''theater'', PStr ''EUR'')])]"
proof -
  have h: "dict_get (intent (state_of eur_h265_intent)) ''intent''
             \<in> {PStr ''filter'', PStr ''search'', PStr ''analyze''}"
    by (simp add: state_of_def intent_lookups)
  show ?thesis
    using theater_hint_wins [OF h, of stable_argsort example_tools] h
    by (simp add: state_of_def intent_lookups)
qed

theorem theater_hint_counterexample:
  "dict_get get_info_intent ''intent'' \<noteq> PStr ''error'' \<and>
   truthy (dict_get get_info_intent ''theater'') \<and> truthy (dict_get get_info_intent ''codec'') \<and>
   execute_tools stable_argsort (state_of get_info_intent) example_tools =
     (\<lparr>intent = get_info_intent, data_results = Some (Tool_results Map.empty), error = None\<rparr>,
      [], example_tools)"
  by (simp add: intent_lookups execute_tools_def select_tool_calls_def state_of_def)

lemma best_examples: "\<not> str_contains ''best'' (lower ''any'')"
  by code_simp

text \<open>
  C5 (amended). For every intent whose kind is \<^verbatim>\<open>filter\<close>, \<^verbatim>\<open>search\<close> or \<^verbatim>\<open>analyze\<close>,
  with no theater hint and no codec hint, and whose quality entry is either missing or a
  string that is not \<^verbatim>\<open>high\<close> and does not contain \<^verbatim>\<open>best\<close> in any letter case, the
  resolver invokes exactly the full listing and returns every record of the catalog, with
  no error. For every other kind except \<^verbatim>\<open>error\<close> it invokes no tool and returns empty
  results, with no error.
\<close>

theorem no_hint_lists_whole_catalog:
  assumes "catalog s = Some cat"
  shows "(dict_get (intent state) ''intent'' \<in> {PStr ''filter'', PStr ''search'', PStr ''analyze''} \<and>
          \<not> truthy (dict_get (intent state) ''theater'') \<and>
          \<not> truthy (dict_get (intent state) ''codec'') \<and>
          (intent state ''quality'' = None \<or>
           (\<exists>q. intent state ''quality'' = Some (PStr q) \<and> q \<noteq> ''high'' \<and>
                \<not> str_contains ''best'' (lower q))) \<longrightarrow>
          execute_tools argsort state s =
            (state\<lparr>data_results :=
                      Some (Tool_results
                             [''get_all_camera_feeds'' \<mapsto>
                                \<lparr>feeds = rows cat, result_count = length (rows cat),
                                 result_columns = columns cat, echo = []\<rparr>])\<rparr>,
             [(''get_all_camera_feeds'', [])], s))
       \<and> (dict_get (intent state) ''intent''
             \<notin> {PStr ''error'', PStr ''filter'', PStr ''search'', PStr ''analyze''} \<longrightarrow>
          execute_tools argsort state s =
            (state\<lparr>data_results := Some (Tool_results Map.empty)\<rparr>, [], s))"
proof (intro conjI impI)
  assume a: "dict_get (intent state) ''intent'' \<in> {PStr ''filter'', PStr ''search'', PStr ''analyze''} \<and>
          \<not> truthy (dict_get (intent state) ''theater'') \<and>
          \<not> truthy (dict_get (intent state) ''codec'') \<and>
          (intent state ''quality'' = None \<or>
           (\<exists>q. intent state ''quality'' = Some (PStr q) \<and> q \<noteq> ''high'' \<and>
                \<not> str_contains ''best'' (lower q)))"
  then have ne: "dict_get (intent state) ''intent'' \<noteq> PStr ''error''"
    by auto
  have k: "dict_get (intent state) ''intent'' \<in> set [PStr ''filter'', PStr ''search'', PStr ''analyze'']"
    using a by simp
  have q: "quality_is_high (intent state) = Inr False"
    using a by (auto simp: quality_is_high_def dict_get_def dict_get_default_def lower_def)
  have sel: "select_tool_calls (intent state) = Inr [(''get_all_camera_feeds'', [])]"
    unfolding select_tool_calls_def using k a q by (simp del: set_simps)
  have inv: "invoke_tool argsort (''get_all_camera_feeds'', []) s =
               (Inr \<lparr>feeds = rows cat, result_count = length (rows cat),
                     result_columns = columns cat, echo = []\<rparr>, s)"
    by (simp add: invoke_tool_def get_all_camera_feeds_loaded [OF assms])
  show "execute_tools argsort state s =
            (state\<lparr>data_results :=
                      Some (Tool_results
                             [''get_all_camera_feeds'' \<mapsto>
                                \<lparr>feeds = rows cat, result_count = length (rows cat),
                                 result_columns = columns cat, echo = []\<rparr>])\<rparr>,
             [(''get_all_camera_feeds'', [])], s)"
    using ne by (simp add: execute_tools_def sel inv)
next
  assume b: "dict_get (intent state) ''intent''
             \<notin> {PStr ''error'', PStr ''filter'', PStr ''search'', PStr ''analyze''}"
  then have sel: "select_tool_calls (intent state) = Inr []"
    by (simp add: select_tool_calls_def)
  show "execute_tools argsort state s =
            (state\<lparr>data_results := Some (Tool_results Map.empty)\<rparr>, [], s)"
    using b by (simp add: execute_tools_def sel)
qed

theorem no_hint_lists_whole_catalog_witness:
  "catalog example_tools = Some example_table \<and>
   execute_tools stable_argsort (state_of plain_intent) example_tools =
     (\<lparr>intent = plain_intent,
       data_results =
         Some (Tool_results
                [''get_all_camera_feeds'' \<mapsto>
                   \<lparr>feeds = [(fd_001, None), (fd_002, None)], result_count = 2,
                    result_columns = csv_columns, echo = []\<rparr>]),
       error = None\<rparr>,
      [(''get_all_camera_feeds'', [])], example_tools) \<and>
   execute_tools stable_argsort (state_of plain_get_info_intent) example_tools =
     (\<lparr>intent = plain_get_info_intent, data_results = Some (Tool_results Map.empty),
       error = None\<rparr>, [], example_tools)"
proof -
  note t = no_hint_lists_whole_catalog [OF catalog_example_tools, of _ stable_argsort]
  have 1: "execute_tools stable_argsort (state_of plain_intent) example_tools =
     (\<lparr>intent = plain_intent,
       data_results =
         Some (Tool_results
                [''get_all_camera_feeds'' \<mapsto>
                   \<lparr>feeds = [(fd_001, None), (fd_002, None)], result_count = 2,
                    result_columns = csv_columns, echo = []\<rparr>]),
       error = None\<rparr>,
      [(''get_all_camera_feeds'', [])], example_tools)"
    using t [of "state_of plain_intent", THEN conjunct1]
    by (simp add: state_of_def intent_lookups best_examples example_table_def numeral_2_eq_2)
  have 2: "execute_tools stable_argsort (state_of plain_get_info_intent) example_tools =
     (\<lparr>intent = plain_get_info_intent, data_results = Some (Tool_results Map.empty),
       error = None\<rparr>, [], example_tools)"
    using t [of "state_of plain_get_info_intent", THEN conjunct2]
    by (simp add: state_of_def intent_lookups)
  show ?thesis
    using 1 2 catalog_example_tools by simp
qed

theorem no_hint_counterexample:
  "dict_get plain_get_info_intent ''intent'' \<noteq> PStr ''error'' \<and>
   plain_get_info_intent ''theater'' = None \<and> plain_get_info_intent ''codec'' = None \<and>
   plain_get_info_intent ''quality'' = None \<and>
   execute_tools stable_argsort (state_of plain_get_info_intent) example_tools =
     (\<lparr>intent = plain_get_info_intent, data_results = Some (Tool_results Map.empty),
       error = None\<rparr>, [], example_tools) \<and>
   dict_get fallback_intent ''intent'' \<noteq> PStr ''error'' \<and>
   fallback_intent ''theater'' = Some PNone \<and> fallback_intent ''codec'' = Some PNone \<and>
   fallback_intent ''quality'' = Some PNone \<and>
   execute_tools stable_argsort (state_of fallback_intent) example_tools =
     (\<lparr>intent = fallback_intent, data_results = Some (Exception_error AttributeError),
       error = Some AttributeError\<rparr>, [], example_tools)"
proof -
  have q: "quality_is_high fallback_intent = Inl AttributeError"
    by (simp add: quality_is_high_def dict_get_default_def intent_lookups)
  have f: "execute_tools stable_argsort (state_of fallback_intent) example_tools =
     (\<lparr>intent = fallback_intent, data_results = Some (Exception_error AttributeError),
       error = Some AttributeError\<rparr>, [], example_tools)"
    by (simp add: execute_tools_def select_tool_calls_def state_of_def intent_lookups q)
  have g: "execute_tools stable_argsort (state_of plain_get_info_intent) example_tools =
     (\<lparr>intent = plain_get_info_intent, data_results = Some (Tool_results Map.empty),
       error = None\<rparr>, [], example_tools)"
    by (simp add: execute_tools_def select_tool_calls_def state_of_def intent_lookups)
  show ?thesis
    using f g
    by (simp add: intent_lookups) (simp add: plain_get_info_intent_def fallback_intent_def)
qed

end
